theory Spec2Isabelle
  imports Complex_Main
begin

section \<open>Tables and vectors\<close>

text \<open>
  The data frames handled by \<^verbatim>\<open>constraints.py\<close> and \<^verbatim>\<open>search.py\<close> are modelled
  row by row: a list of column names and a list of rows. A cell is \<^verbatim>\<open>None\<close> or a text
  value, the two kinds of value the quality functions distinguish. Score vectors
  (\<^verbatim>\<open>np.zeros((N,))\<close>, \<^verbatim>\<open>np.ones((N,))\<close>) are lists of reals. The sums of the fidelity
  metric and the combined score of the search are rounded to 64-bit floats after every
  operation, as the program computes them; the other quality functions divide or halve
  once, and are written with exact arithmetic.
\<close>

datatype error = AttributeError | KeyError | IndexError | TypeError | ValueError | ZeroDivisionError

datatype cell = CNone | CStr string

record table =
  columns :: "string list"
  rows :: "cell list list"

type_synonym vector = "real list"

text \<open>\<^verbatim>\<open>df.shape\<close>: the number of rows and the number of columns.\<close>

definition shape :: "table \<Rightarrow> nat \<times> nat" where
  "shape df = (length (rows df), length (columns df))"

text \<open>\<^verbatim>\<open>df.iloc[i,j]\<close>; a position outside the frame raises.\<close>

definition iloc :: "table \<Rightarrow> nat \<Rightarrow> nat \<Rightarrow> error + cell" where
  "iloc df i j =
     (if i < length (rows df) \<and> j < length (columns df) \<and> j < length (rows df ! i)
      then Inr (rows df ! i ! j) else Inl IndexError)"

text \<open>The position of a column name; \<^verbatim>\<open>df[name]\<close> raises \<^verbatim>\<open>KeyError\<close> for an unknown name.\<close>

fun col_index :: "string list \<Rightarrow> string \<Rightarrow> nat option" where
  "col_index [] a = None"
| "col_index (c # cs) a = (if c = a then Some 0 else map_option Suc (col_index cs a))"

text \<open>\<^verbatim>\<open>df[attr].iloc[i]\<close>: the value of column \<open>attr\<close> in row \<open>i\<close>.\<close>

definition getitem :: "table \<Rightarrow> string \<Rightarrow> nat \<Rightarrow> error + cell" where
  "getitem df attr i =
     (case col_index (columns df) attr of
        None \<Rightarrow> Inl KeyError
      | Some j \<Rightarrow> iloc df i j)"

text \<open>\<^verbatim>\<open>tuple(df[names].iloc[i,:])\<close>: row \<open>i\<close> restricted to the columns \<open>names\<close>, in that order.\<close>

fun getitem_row :: "table \<Rightarrow> string list \<Rightarrow> nat \<Rightarrow> error + cell list" where
  "getitem_row df [] i = (if i < length (rows df) then Inr [] else Inl IndexError)"
| "getitem_row df (a # as) i =
     (case getitem df a i of
        Inl e \<Rightarrow> Inl e
      | Inr v \<Rightarrow> (case getitem_row df as i of Inl e \<Rightarrow> Inl e | Inr vs \<Rightarrow> Inr (v # vs)))"

definition ones :: "nat \<Rightarrow> vector" where
  "ones N = replicate N 1"

definition zeros :: "nat \<Rightarrow> vector" where
  "zeros N = replicate N 0"

text \<open>
  Elementwise operations of numpy on one-dimensional arrays: equal lengths combine
  position by position, a one-element array is broadcast, other lengths raise.
\<close>

definition np_binop :: "(real \<Rightarrow> real \<Rightarrow> real) \<Rightarrow> vector \<Rightarrow> vector \<Rightarrow> error + vector" where
  "np_binop f u v =
     (if length u = length v then Inr (map2 f u v)
      else if length u = 1 then Inr (map (f (hd u)) v)
      else if length v = 1 then Inr (map (\<lambda>x. f x (hd v)) u)
      else Inl ValueError)"

definition in_unit :: "vector \<Rightarrow> bool" where
  "in_unit v = list_all (\<lambda>x. 0 \<le> x \<and> x \<le> 1) v"

section \<open>Rounding to 64-bit floats\<close>

text \<open>
  The value of a floating-point operation is the exact result rounded to the nearest
  number with a 53-bit significand, ties going to the even significand. \<open>normalise\<close>
  scales the magnitude into \<open>[2^52, 2^53)\<close>, counting the exponent; its first argument
  bounds the number of steps and covers the whole exponent range of the format. Overflow
  and subnormal numbers are not modelled: the scores rounded here lie between \<open>2^-60\<close>
  and \<open>2^60\<close>.
\<close>

fun normalise :: "nat \<Rightarrow> real \<Rightarrow> int \<Rightarrow> real \<times> int" where
  "normalise 0 m e = (m, e)"
| "normalise (Suc k) m e =
     (if 2 ^ 53 \<le> m then normalise k (m / 2) (e + 1)
      else if m < 2 ^ 52 then normalise k (m * 2) (e - 1)
      else (m, e))"

definition round_even :: "real \<Rightarrow> int" where
  "round_even y =
     (let f = \<lfloor>y\<rfloor> in
      if y - of_int f < 1 / 2 then f
      else if 1 / 2 < y - of_int f then f + 1
      else if even f then f else f + 1)"

definition float64 :: "real \<Rightarrow> real" where
  "float64 x =
     (if x = 0 then 0
      else (case normalise 2200 \<bar>x\<bar> 0 of (m, e) \<Rightarrow>
              sgn x * of_int (round_even m)
                * (if 0 \<le> e then 2 ^ nat e else 1 / 2 ^ nat (- e))))"

section \<open>Constraints\<close>

text \<open>
  A constraint object carries the attributes the program reads: \<open>hint\<close>, \<open>hintParams\<close>
  and the callable \<open>qfn\<close>. An attribute that a constructor never sets is \<open>None\<close>, and
  reading it raises \<^verbatim>\<open>AttributeError\<close>. The only hint parameter the program stores is a
  codebook, a collection of cell values.
\<close>

record constraint =
  hint :: "string set option"
  hintParams :: "(string \<rightharpoonup> cell list) option"
  qfn :: "table \<Rightarrow> error + vector"

text \<open>
  \<^verbatim>\<open>Constraint.qfn\<close>: the scoring logic \<^verbatim>\<open>_qfn\<close> of the class, with every error replaced
  by the all-ones vector.
\<close>

definition Constraint_qfn :: "(table \<Rightarrow> error + vector) \<Rightarrow> table \<Rightarrow> error + vector" where
  "Constraint_qfn uqfn df =
     (case uqfn df of
        Inr v \<Rightarrow> Inr v
      | Inl e \<Rightarrow> Inr (ones (fst (shape df))))"

text \<open>\<^verbatim>\<open>Constraint._qfn\<close> raises (\<^verbatim>\<open>NotImplemented\<close> is not callable).\<close>

definition Constraint__qfn :: "table \<Rightarrow> error + vector" where
  "Constraint__qfn df = Inl TypeError"

text \<open>
  \<^verbatim>\<open>Constraint.__init__\<close>, run on an object whose class has the scoring logic \<open>uqfn\<close> and
  whose attribute \<^verbatim>\<open>codebook\<close> is \<open>cb\<close> when it has one.
\<close>

definition Constraint_init ::
  "(table \<Rightarrow> error + vector) \<Rightarrow> cell list option \<Rightarrow> string set \<Rightarrow> constraint" where
  "Constraint_init uqfn cb h =
     \<lparr> hint = Some h,
       hintParams = Some (case cb of None \<Rightarrow> Map.empty | Some c \<Rightarrow> [''codebook'' \<mapsto> c]),
       qfn = Constraint_qfn uqfn \<rparr>"

text \<open>\<^verbatim>\<open>Constraint(hint)\<close>, an object of the base class.\<close>

definition Constraint :: "string set \<Rightarrow> constraint" where
  "Constraint h = Constraint_init Constraint__qfn None h"

subsection \<open>Composition\<close>

text \<open>What \<^verbatim>\<open>__mul__\<close> is given on the right: a number or a constraint.\<close>

datatype operand = Num real | Con constraint

definition operand_float :: "operand \<Rightarrow> error + real" where
  "operand_float other = (case other of Num w \<Rightarrow> Inr w | Con c \<Rightarrow> Inl TypeError)"

definition attr_hint :: "constraint \<Rightarrow> error + string set" where
  "attr_hint c = (case hint c of None \<Rightarrow> Inl AttributeError | Some h \<Rightarrow> Inr h)"

definition attr_hintParams :: "constraint \<Rightarrow> error + (string \<rightharpoonup> cell list)" where
  "attr_hintParams c = (case hintParams c of None \<Rightarrow> Inl AttributeError | Some m \<Rightarrow> Inr m)"

definition operand_hint :: "operand \<Rightarrow> error + string set" where
  "operand_hint other = (case other of Num w \<Rightarrow> Inl AttributeError | Con c \<Rightarrow> attr_hint c)"

definition operand_hintParams :: "operand \<Rightarrow> error + (string \<rightharpoonup> cell list)" where
  "operand_hintParams other =
     (case other of Num w \<Rightarrow> Inl AttributeError | Con c \<Rightarrow> attr_hintParams c)"

definition operand_qfn :: "operand \<Rightarrow> table \<Rightarrow> error + vector" where
  "operand_qfn other df = (case other of Num w \<Rightarrow> Inl AttributeError | Con c \<Rightarrow> qfn c df)"

text \<open>
  The four statements shared by \<^verbatim>\<open>__add__\<close> and both branches of \<^verbatim>\<open>__mul__\<close>: a fresh
  \<^verbatim>\<open>Constraint()\<close> whose \<open>qfn\<close> is replaced by \<open>q\<close>, whose hint is the union of the two
  hints and whose parameters are a copy of the left ones updated with the right ones
  (\<^verbatim>\<open>dict.update\<close>: the right value replaces the left one under a common key).
\<close>

definition combine :: "constraint \<Rightarrow> operand \<Rightarrow> (table \<Rightarrow> error + vector) \<Rightarrow> error + constraint" where
  "combine self other q =
     (case attr_hint self of Inl e \<Rightarrow> Inl e | Inr hs \<Rightarrow>
     (case operand_hint other of Inl e \<Rightarrow> Inl e | Inr ho \<Rightarrow>
     (case attr_hintParams self of Inl e \<Rightarrow> Inl e | Inr ps \<Rightarrow>
     (case operand_hintParams other of Inl e \<Rightarrow> Inl e | Inr po \<Rightarrow>
        Inr \<lparr> hint = Some (hs \<union> ho), hintParams = Some (ps ++ po), qfn = q \<rparr>))))"

text \<open>\<^verbatim>\<open>lambda df: (self.qfn(df) + other.qfn(df))/2\<close>\<close>

definition add_qfn :: "constraint \<Rightarrow> constraint \<Rightarrow> table \<Rightarrow> error + vector" where
  "add_qfn self other df =
     (case qfn self df of Inl e \<Rightarrow> Inl e | Inr u \<Rightarrow>
     (case qfn other df of Inl e \<Rightarrow> Inl e | Inr v \<Rightarrow>
     (case np_binop (+) u v of Inl e \<Rightarrow> Inl e | Inr w \<Rightarrow> Inr (map (\<lambda>x. x / 2) w))))"

text \<open>\<^verbatim>\<open>lambda df: fother*self.qfn(df)\<close>\<close>

definition scale_qfn :: "real \<Rightarrow> constraint \<Rightarrow> table \<Rightarrow> error + vector" where
  "scale_qfn fother self df =
     (case qfn self df of Inl e \<Rightarrow> Inl e | Inr u \<Rightarrow> Inr (map (\<lambda>x. fother * x) u))"

text \<open>\<^verbatim>\<open>lambda df: np.maximum(self.qfn(df), other.qfn(df))\<close>\<close>

definition max_qfn :: "constraint \<Rightarrow> operand \<Rightarrow> table \<Rightarrow> error + vector" where
  "max_qfn self other df =
     (case qfn self df of Inl e \<Rightarrow> Inl e | Inr u \<Rightarrow>
     (case operand_qfn other df of Inl e \<Rightarrow> Inl e | Inr v \<Rightarrow> np_binop max u v))"

text \<open>\<^verbatim>\<open>Constraint.__add__\<close>\<close>

definition Constraint_add :: "constraint \<Rightarrow> constraint \<Rightarrow> error + constraint" where
  "Constraint_add self other = combine self (Con other) (add_qfn self other)"

text \<open>
  \<^verbatim>\<open>Constraint.__mul__\<close>: the \<^verbatim>\<open>try\<close> body converts the right operand to a float and
  builds the scaled constraint; any error there leads to the \<^verbatim>\<open>except\<close> body, which builds
  the maximum, and whose own errors reach the caller.
\<close>

definition Constraint_mul :: "constraint \<Rightarrow> operand \<Rightarrow> error + constraint" where
  "Constraint_mul self other =
     (case (case operand_float other of
              Inl e \<Rightarrow> Inl e
            | Inr fother \<Rightarrow> combine self other (scale_qfn fother self)) of
        Inr c \<Rightarrow> Inr c
      | Inl e \<Rightarrow> combine self other (max_qfn self other))"

subsection \<open>Functional dependencies\<close>

text \<open>
  \<^verbatim>\<open>FD._qfn\<close>. The first loop fills \<open>kv\<close>, the target tuples seen with each source tuple,
  and keeps the largest size reached in \<open>normalization\<close>; the second loop divides.
\<close>

type_synonym kvmap = "cell list \<rightharpoonup> cell list set"

fun FD_collect ::
  "table \<Rightarrow> string list \<Rightarrow> string list \<Rightarrow> nat list \<Rightarrow> kvmap \<times> nat \<Rightarrow> error + kvmap \<times> nat" where
  "FD_collect df source target [] st = Inr st"
| "FD_collect df source target (i # is) (kv, normalization) =
     (case getitem_row df source i of Inl e \<Rightarrow> Inl e | Inr s \<Rightarrow>
     (case getitem_row df target i of Inl e \<Rightarrow> Inl e | Inr t \<Rightarrow>
        (let ts = (case kv s of Some old \<Rightarrow> insert t old | None \<Rightarrow> {t})
         in FD_collect df source target is (kv(s \<mapsto> ts), max (card ts) normalization))))"

fun FD_fill ::
  "table \<Rightarrow> string list \<Rightarrow> kvmap \<Rightarrow> nat \<Rightarrow> nat list \<Rightarrow> error + vector" where
  "FD_fill df source kv normalization [] = Inr []"
| "FD_fill df source kv normalization (i # is) =
     (case getitem_row df source i of Inl e \<Rightarrow> Inl e | Inr s \<Rightarrow>
     (case kv s of None \<Rightarrow> Inl KeyError | Some ts \<Rightarrow>
        (if normalization = 0 then Inl ZeroDivisionError
         else (case FD_fill df source kv normalization is of
                 Inl e \<Rightarrow> Inl e
               | Inr v \<Rightarrow> Inr (real_of_int (int (card ts) - 1) / real normalization # v)))))"

definition FD__qfn :: "string list \<Rightarrow> string list \<Rightarrow> table \<Rightarrow> error + vector" where
  "FD__qfn source target df =
     (let N = fst (shape df) in
      case FD_collect df source target [0..<N] (Map.empty, 0) of
        Inl e \<Rightarrow> Inl e
      | Inr (kv, normalization) \<Rightarrow> FD_fill df source kv normalization [0..<N])"

text \<open>\<^verbatim>\<open>FD.__init__\<close> sets \<open>hint\<close> and does not run \<^verbatim>\<open>Constraint.__init__\<close>.\<close>

definition FD :: "string list \<Rightarrow> string list \<Rightarrow> constraint" where
  "FD source target =
     \<lparr> hint = Some (set (source @ target)), hintParams = None,
       qfn = Constraint_qfn (FD__qfn source target) \<rparr>"

definition OneToOne :: "string list \<Rightarrow> string list \<Rightarrow> error + constraint" where
  "OneToOne source target = Constraint_mul (FD source target) (Con (FD target source))"

subsection \<open>Predicates\<close>

text \<open>
  \<^verbatim>\<open>Predicate._qfn\<close>: every row starts at 1; a \<^verbatim>\<open>None\<close> value scores 0.01, a value that
  passes the test scores 0. The test \<open>expr\<close> is any callable and may raise.
\<close>

fun Predicate_rows ::
  "table \<Rightarrow> string \<Rightarrow> (cell \<Rightarrow> error + bool) \<Rightarrow> nat list \<Rightarrow> error + vector" where
  "Predicate_rows df attr expr [] = Inr []"
| "Predicate_rows df attr expr (i # is) =
     (case getitem df attr i of Inl e \<Rightarrow> Inl e | Inr val \<Rightarrow>
     (case (if val = CNone then Inr (1 / 100)
            else (case expr val of Inl e \<Rightarrow> Inl e | Inr b \<Rightarrow> Inr (if b then 0 else 1))) of
        Inl e \<Rightarrow> Inl e
      | Inr x \<Rightarrow>
         (case Predicate_rows df attr expr is of Inl e \<Rightarrow> Inl e | Inr v \<Rightarrow> Inr (x # v))))"

definition Predicate__qfn :: "string \<Rightarrow> (cell \<Rightarrow> error + bool) \<Rightarrow> table \<Rightarrow> error + vector" where
  "Predicate__qfn attr expr df = Predicate_rows df attr expr [0..<fst (shape df)]"

text \<open>
  \<^verbatim>\<open>Predicate.__init__\<close> sets the hint to the one column and runs \<^verbatim>\<open>Constraint.__init__\<close>;
  \<open>cb\<close> is the \<^verbatim>\<open>codebook\<close> attribute of the object, which only \<^verbatim>\<open>DictValue\<close> sets. \<^verbatim>\<open>Date\<close>
  and \<^verbatim>\<open>Pattern\<close> are predicates whose tests call \<^verbatim>\<open>time.strptime\<close> and \<^verbatim>\<open>re.match\<close>.
\<close>

definition Predicate_init ::
  "cell list option \<Rightarrow> string \<Rightarrow> (cell \<Rightarrow> error + bool) \<Rightarrow> constraint" where
  "Predicate_init cb attr expr = Constraint_init (Predicate__qfn attr expr) cb {attr}"

definition Predicate :: "string \<Rightarrow> (cell \<Rightarrow> error + bool) \<Rightarrow> constraint" where
  "Predicate attr expr = Predicate_init None attr expr"

definition DictValue :: "string \<Rightarrow> cell list \<Rightarrow> constraint" where
  "DictValue attr codebook = Predicate_init (Some codebook) attr (\<lambda>x. Inr (x \<in> set codebook))"

subsection \<open>Shape\<close>

definition Shape__qfn :: "nat \<Rightarrow> nat \<Rightarrow> table \<Rightarrow> error + vector" where
  "Shape__qfn rows' columns' df =
     (let N = fst (shape df) in
      if fst (shape df) \<noteq> rows' \<or> snd (shape df) \<noteq> columns' then Inr (ones N)
      else Inr (zeros N))"

text \<open>\<^verbatim>\<open>Shape.__init__\<close> sets neither \<open>hint\<close> nor \<open>hintParams\<close>.\<close>

definition Shape :: "nat \<Rightarrow> nat \<Rightarrow> constraint" where
  "Shape rows' columns' =
     \<lparr> hint = None, hintParams = None, qfn = Constraint_qfn (Shape__qfn rows' columns') \<rparr>"

subsection \<open>Fidelity to a reference table\<close>

text \<open>
  What \<^verbatim>\<open>CellEdit._qfn\<close> and the search call outside this repository: the normalised
  Levenshtein distance of the \<^verbatim>\<open>distance\<close> package, the similarity of two words in the
  loaded word vectors (which raises for an unknown word), \<^verbatim>\<open>s.lower().split()\<close>, and
  \<^verbatim>\<open>np.sum\<close>, which adds the entries of an array in an order of numpy's choosing.
\<close>

record externals =
  levenshtein :: "string \<Rightarrow> string \<Rightarrow> real"
  similarity :: "string \<Rightarrow> string \<Rightarrow> error + real"
  lower_split :: "string \<Rightarrow> string list"
  np_sum :: "vector \<Rightarrow> real"

text \<open>\<^verbatim>\<open>str(value)\<close>\<close>

fun py_str :: "cell \<Rightarrow> string" where
  "py_str CNone = ''None''"
| "py_str (CStr s) = s"

text \<open>
  The body of the inner loop for one cell: the new value of \<^verbatim>\<open>qfn_a[i]\<close>, given its value
  \<open>acc\<close> before the cell. Where the program continues, the value stays as it is. Every
  division, subtraction and addition is rounded.
\<close>

definition CellEdit_cell ::
  "externals \<Rightarrow> (string \<rightharpoonup> string) \<Rightarrow> nat \<Rightarrow> string \<Rightarrow> cell \<Rightarrow> cell \<Rightarrow> real
     \<Rightarrow> error + real" where
  "CellEdit_cell ext metric p cname tc rc acc =
     (let target = py_str tc; ref = py_str rc in
      if target = ref then Inr acc
      else if tc = CNone then Inr acc
      else if target = [] \<and> ref \<noteq> target then Inr (float64 (float64 (1 / real p) + acc))
      else if ref = [] \<and> ref \<noteq> target then Inr (float64 (float64 (1 / real p) + acc))
      else
        (let ttokens = remdups (lower_split ext target);
             rtokens = remdups (lower_split ext ref)
         in case metric cname of
              None \<Rightarrow> Inl KeyError
            | Some m \<Rightarrow>
               (if m = ''edit'' then
                  Inr (float64 (float64 (levenshtein ext target ref / real p) + acc))
                else if m = ''jaccard'' then
                  (if card (set ttokens \<union> set rtokens) = 0 then Inl ZeroDivisionError
                   else Inr (float64 (float64 (float64 (1 -
                               float64 (real (card (set ttokens \<inter> set rtokens))
                                          / real (card (set ttokens \<union> set rtokens))))
                             / real p) + acc)))
                else if m = ''semantic'' then
                  (let sim = concat (map (\<lambda>t. map (\<lambda>r.
                               (case similarity ext t r of
                                  Inl e \<Rightarrow> 0
                                | Inr x \<Rightarrow> float64 (float64 (x + 1) / 2))) rtokens) ttokens)
                   in if length sim > 0
                      then Inr (float64 (float64 (float64 (1 -
                                  float64 (np_sum ext sim / real (length sim))) / real p) + acc))
                      else Inr (float64 (float64 (1 / real p) + acc)))
                else Inr acc)))"

text \<open>The loop over the columns \<open>j\<close> of row \<open>i\<close>, updating \<^verbatim>\<open>qfn_a[i]\<close>.\<close>

fun CellEdit_row ::
  "externals \<Rightarrow> (string \<rightharpoonup> string) \<Rightarrow> table \<Rightarrow> table \<Rightarrow> nat \<Rightarrow> nat \<Rightarrow> nat list \<Rightarrow> real
     \<Rightarrow> error + real" where
  "CellEdit_row ext metric source df p i [] acc = Inr acc"
| "CellEdit_row ext metric source df p i (j # js) acc =
     (case iloc df i j of Inl e \<Rightarrow> Inl e | Inr tc \<Rightarrow>
     (case iloc source i j of Inl e \<Rightarrow> Inl e | Inr rc \<Rightarrow>
     (if length (columns source) \<le> j then Inl IndexError
      else (case CellEdit_cell ext metric p (columns source ! j) tc rc acc of
              Inl e \<Rightarrow> Inl e
            | Inr acc' \<Rightarrow> CellEdit_row ext metric source df p i js acc'))))"

text \<open>The loop over the rows.\<close>

fun CellEdit_rows ::
  "externals \<Rightarrow> (string \<rightharpoonup> string) \<Rightarrow> table \<Rightarrow> table \<Rightarrow> nat \<Rightarrow> nat list \<Rightarrow> error + vector" where
  "CellEdit_rows ext metric source df p [] = Inr []"
| "CellEdit_rows ext metric source df p (i # is) =
     (case CellEdit_row ext metric source df p i [0..<p] 0 of
        Inl e \<Rightarrow> Inl e
      | Inr x \<Rightarrow>
         (case CellEdit_rows ext metric source df p is of
            Inl e \<Rightarrow> Inl e
          | Inr v \<Rightarrow> Inr (x # v)))"

definition CellEdit__qfn ::
  "externals \<Rightarrow> table \<Rightarrow> (string \<rightharpoonup> string) \<Rightarrow> table \<Rightarrow> error + vector" where
  "CellEdit__qfn ext source metric df =
     (let N = fst (shape df); p = snd (shape df) in
      if shape source \<noteq> shape df then Inr (ones N)
      else CellEdit_rows ext metric source df p [0..<N])"

text \<open>
  \<^verbatim>\<open>CellEdit.__init__\<close>: every column of the reference table gets the metric \<^verbatim>\<open>'edit'\<close>,
  then the entries of the argument \<open>metric\<close> replace or extend these. Neither \<open>hint\<close>
  nor \<open>hintParams\<close> is set.
\<close>

definition CellEdit_metric :: "table \<Rightarrow> (string \<rightharpoonup> string) \<Rightarrow> (string \<rightharpoonup> string)" where
  "CellEdit_metric source metric =
     (\<lambda>s. if s \<in> set (columns source) then Some ''edit'' else None) ++ metric"

definition CellEdit :: "externals \<Rightarrow> table \<Rightarrow> (string \<rightharpoonup> string) \<Rightarrow> constraint" where
  "CellEdit ext source metric =
     \<lparr> hint = None, hintParams = None,
       qfn = Constraint_qfn (CellEdit__qfn ext source (CellEdit_metric source metric)) \<rparr>"

text \<open>
  The objects that score a rule: the instances of the base class, of \<^verbatim>\<open>FD\<close>, of
  \<^verbatim>\<open>Predicate\<close> and its subclasses and of \<^verbatim>\<open>Shape\<close>, and what \<^verbatim>\<open>+\<close> and \<^verbatim>\<open>*\<close> return on
  two such objects.
\<close>

inductive rule_object :: "constraint \<Rightarrow> bool" where
  rule_Constraint: "rule_object (Constraint h)"
| rule_FD: "rule_object (FD source target)"
| rule_Predicate: "rule_object (Predicate_init cb attr expr)"
| rule_Shape: "rule_object (Shape rows' columns')"
| rule_add: "rule_object a \<Longrightarrow> rule_object b
     \<Longrightarrow> Constraint_add a b = Inr c \<Longrightarrow> rule_object c"
| rule_mul: "rule_object a \<Longrightarrow> rule_object b
     \<Longrightarrow> Constraint_mul a (Con b) = Inr c \<Longrightarrow> rule_object c"

text \<open>
  All the constraint objects the module can build: the rule objects, the instances of
  \<^verbatim>\<open>CellEdit\<close>, and what \<^verbatim>\<open>+\<close> and \<^verbatim>\<open>*\<close> return on two constraint objects.
\<close>

inductive constraint_object :: "externals \<Rightarrow> constraint \<Rightarrow> bool" for ext :: externals where
  obj_rule: "rule_object c \<Longrightarrow> constraint_object ext c"
| obj_CellEdit: "constraint_object ext (CellEdit ext source metric)"
| obj_add: "constraint_object ext a \<Longrightarrow> constraint_object ext b
     \<Longrightarrow> Constraint_add a b = Inr c \<Longrightarrow> constraint_object ext c"
| obj_mul: "constraint_object ext a \<Longrightarrow> constraint_object ext b
     \<Longrightarrow> Constraint_mul a (Con b) = Inr c \<Longrightarrow> constraint_object ext c"

section \<open>Search\<close>

text \<open>
  \<^verbatim>\<open>search.py\<close> takes the operations from the module \<^verbatim>\<open>generators\<close>, which is not among
  these sources. The search is therefore stated over any type \<open>'op\<close> of operations with
  the members it uses: the neutral operation \<^verbatim>\<open>NOOP()\<close>, the product \<^verbatim>\<open>op * opbranch\<close>, the
  attributes \<^verbatim>\<open>name\<close> and \<^verbatim>\<open>depth\<close>, and \<^verbatim>\<open>run\<close>, which may raise. The answer of
  \<^verbatim>\<open>ParameterSampler(bfs_source, costFn, operations).getAllOperations()\<close> is a finite list
  that may differ from one round to the next, so it is given the round number as well.
  \<^verbatim>\<open>hash(str(df.values))\<close> is the built-in hash of the printed values. Tables are
  values: \<^verbatim>\<open>run\<close> returns its result and leaves the table it is given as it was.
\<close>

record 'op environment =
  NOOP :: "'op"
  op_mul :: "'op \<Rightarrow> 'op \<Rightarrow> 'op"
  op_name :: "'op \<Rightarrow> string"
  op_depth :: "'op \<Rightarrow> real"
  op_run :: "'op \<Rightarrow> table \<Rightarrow> error + table"
  getAllOperations :: "nat \<Rightarrow> table \<Rightarrow> 'op list"
  hash_values :: "table \<Rightarrow> int"

text \<open>
  A call \<^verbatim>\<open>CellEdit(source, metric, ...)\<close>: \<^verbatim>\<open>CellEdit.__init__(self, source, metric={})\<close>
  takes the reference table and the metrics; any further positional argument makes the
  call raise \<^verbatim>\<open>TypeError\<close> before the constructor runs.
\<close>

definition CellEdit_call ::
  "externals \<Rightarrow> table \<Rightarrow> (string \<rightharpoonup> string) \<Rightarrow> 'a list \<Rightarrow> error + constraint" where
  "CellEdit_call ext source metric further =
     (case further of
        [] \<Rightarrow> Inr (CellEdit ext source metric)
      | x # xs \<Rightarrow> Inl TypeError)"

text \<open>
  The first statement of \<^verbatim>\<open>treeSearch\<close>,
  \<^verbatim>\<open>efn = CellEdit(df.copy(), similarity, word2vec).qfn\<close>: the word vectors given to
  \<^verbatim>\<open>treeSearch\<close> (or \<^verbatim>\<open>None\<close>) are passed as a third positional argument.
\<close>

type_synonym word_vectors = "string \<Rightarrow> string \<Rightarrow> error + real"

definition treeSearch_efn ::
  "externals \<Rightarrow> table \<Rightarrow> (string \<rightharpoonup> string) \<Rightarrow> word_vectors option
     \<Rightarrow> error + (table \<Rightarrow> error + vector)" where
  "treeSearch_efn ext df similarity' word2vec =
     (case CellEdit_call ext df similarity' [word2vec] of
        Inl e \<Rightarrow> Inl e
      | Inr c \<Rightarrow> Inr (qfn c))"

text \<open>
  The variables of \<^verbatim>\<open>treeSearch\<close> that change: \<open>best\<close>, \<open>branch_hash\<close> and
  \<open>bad_op_cache\<close>. Two further fields are not variables of the program but a record of
  what it did: \<open>evaluated\<close> lists, in order, every candidate that reached the scoring
  lines, with its score \<open>n\<close> and the value of \<^verbatim>\<open>best[0]\<close> that \<open>n\<close> was compared with;
  \<open>skipped\<close> lists the rounds that ended at the \<^verbatim>\<open>continue\<close> of the inflation test.
\<close>

record 'op search =
  best :: "real \<times> 'op \<times> table"
  branch_hash :: "int set"
  bad_op_cache :: "string set"
  evaluated :: "(table \<times> real \<times> real) list"
  skipped :: "nat list"

definition pruningRules :: "table \<Rightarrow> bool" where
  "pruningRules output =
     (if snd (shape output) = 0 then True
      else if fst (shape output) = 0 then True
      else False)"

text \<open>
  \<^verbatim>\<open>costEval = costFn.qfn(output)\<close> and
  \<^verbatim>\<open>n = (np.sum(costEval) + editCost*np.sum(efn(output)))/output.shape[0]\<close>, with the
  product, the sum and the quotient rounded.
\<close>

definition combined_score ::
  "externals \<Rightarrow> constraint \<Rightarrow> (table \<Rightarrow> error + vector) \<Rightarrow> real \<Rightarrow> table \<Rightarrow> error + real" where
  "combined_score ext costFn efn editCost output =
     (case qfn costFn output of Inl e \<Rightarrow> Inl e | Inr costEval \<Rightarrow>
     (case efn output of Inl e \<Rightarrow> Inl e | Inr fidelity \<Rightarrow>
        Inr (float64 (float64 (np_sum ext costEval + float64 (editCost * np_sum ext fidelity))
                        / real (fst (shape output))))))"

text \<open>
  The body of the inner loop for one sampled operation. \<open>op\<close> and \<open>frame\<close> are the
  values unpacked at the top of the round; the comparison reads the current \<^verbatim>\<open>best[0]\<close>.
\<close>

definition try_operation ::
  "'op environment \<Rightarrow> externals \<Rightarrow> constraint \<Rightarrow> (table \<Rightarrow> error + vector) \<Rightarrow> real \<Rightarrow> 'op
     \<Rightarrow> table \<Rightarrow> 'op search \<Rightarrow> 'op \<Rightarrow> error + 'op search" where
  "try_operation g ext costFn efn editCost op frame s opbranch =
     (if op_name g opbranch \<in> bad_op_cache s then Inr s
      else
        (let nextop = op_mul g op opbranch in
         case op_run g opbranch frame of
           Inl e \<Rightarrow> Inr (s\<lparr>bad_op_cache := insert (op_name g opbranch) (bad_op_cache s)\<rparr>)
         | Inr output \<Rightarrow>
            (if pruningRules output then Inr s
             else
               (case combined_score ext costFn efn editCost output of
                  Inl e \<Rightarrow> Inl e
                | Inr n \<Rightarrow>
                   Inr ((if n < fst (best s) then s\<lparr>best := (n, nextop, output)\<rparr> else s)
                          \<lparr>evaluated := evaluated s @ [(output, n, fst (best s))]\<rparr>)))))"

fun for_operations ::
  "'op environment \<Rightarrow> externals \<Rightarrow> constraint \<Rightarrow> (table \<Rightarrow> error + vector) \<Rightarrow> real \<Rightarrow> 'op
     \<Rightarrow> table \<Rightarrow> 'op list \<Rightarrow> 'op search \<Rightarrow> error + 'op search" where
  "for_operations g ext costFn efn editCost op frame [] s = Inr s"
| "for_operations g ext costFn efn editCost op frame (opbranch # rest) s =
     (case try_operation g ext costFn efn editCost op frame s opbranch of
        Inl e \<Rightarrow> Inl e
      | Inr s' \<Rightarrow> for_operations g ext costFn efn editCost op frame rest s')"

text \<open>One round \<open>i\<close> of the outer loop.\<close>

definition search_round ::
  "'op environment \<Rightarrow> externals \<Rightarrow> constraint \<Rightarrow> (table \<Rightarrow> error + vector) \<Rightarrow> real \<Rightarrow> real
     \<Rightarrow> nat \<Rightarrow> 'op search \<Rightarrow> error + 'op search" where
  "search_round g ext costFn efn inflation editCost i s =
     (case best s of (value, op, frame) \<Rightarrow>
        if value - op_depth g op > fst (best s) * inflation
        then Inr (s\<lparr>skipped := skipped s @ [i]\<rparr>)
        else
          (let bfs_source = frame in
           case qfn costFn bfs_source of
             Inl e \<Rightarrow> Inl e
           | Inr costEval \<Rightarrow>
              for_operations g ext costFn efn editCost op frame
                (getAllOperations g i bfs_source) s))"

fun for_rounds ::
  "'op environment \<Rightarrow> externals \<Rightarrow> constraint \<Rightarrow> (table \<Rightarrow> error + vector) \<Rightarrow> real \<Rightarrow> real
     \<Rightarrow> nat list \<Rightarrow> 'op search \<Rightarrow> error + 'op search" where
  "for_rounds g ext costFn efn inflation editCost [] s = Inr s"
| "for_rounds g ext costFn efn inflation editCost (i # is) s =
     (case search_round g ext costFn efn inflation editCost i s of
        Inl e \<Rightarrow> Inl e
      | Inr s' \<Rightarrow> for_rounds g ext costFn efn inflation editCost is s')"

text \<open>The state before the first round.\<close>

definition initial :: "'op environment \<Rightarrow> table \<Rightarrow> 'op search" where
  "initial g df =
     \<lparr> best = (2, NOOP g, df), branch_hash = {hash_values g df}, bad_op_cache = {},
       evaluated = [], skipped = [] \<rparr>"

text \<open>
  The statements of \<^verbatim>\<open>treeSearch\<close> after the first: the initial state and the loop
  \<^verbatim>\<open>for i in range(evaluations)\<close>, for a given fidelity function \<open>efn\<close>.
\<close>

definition search_loop ::
  "'op environment \<Rightarrow> externals \<Rightarrow> table \<Rightarrow> constraint \<Rightarrow> (table \<Rightarrow> error + vector) \<Rightarrow> nat
     \<Rightarrow> real \<Rightarrow> real \<Rightarrow> error + 'op search" where
  "search_loop g ext df costFn efn evaluations inflation editCost =
     for_rounds g ext costFn efn inflation editCost [0..<evaluations] (initial g df)"

text \<open>
  \<^verbatim>\<open>treeSearch\<close>, up to its \<^verbatim>\<open>return\<close>: the first statement, then the loop. The argument
  \<open>operations\<close> only reaches the sampler and is part of \<open>g\<close>.
\<close>

definition treeSearch_run ::
  "'op environment \<Rightarrow> externals \<Rightarrow> table \<Rightarrow> constraint \<Rightarrow> nat \<Rightarrow> real \<Rightarrow> real
     \<Rightarrow> (string \<rightharpoonup> string) \<Rightarrow> word_vectors option \<Rightarrow> error + 'op search" where
  "treeSearch_run g ext df costFn evaluations inflation editCost similarity' word2vec =
     (case treeSearch_efn ext df similarity' word2vec of
        Inl e \<Rightarrow> Inl e
      | Inr efn \<Rightarrow> search_loop g ext df costFn efn evaluations inflation editCost)"

text \<open>\<^verbatim>\<open>return best[1], best[2]\<close>\<close>

definition treeSearch ::
  "'op environment \<Rightarrow> externals \<Rightarrow> table \<Rightarrow> constraint \<Rightarrow> nat \<Rightarrow> real \<Rightarrow> real
     \<Rightarrow> (string \<rightharpoonup> string) \<Rightarrow> word_vectors option \<Rightarrow> error + 'op \<times> table" where
  "treeSearch g ext df costFn evaluations inflation editCost similarity' word2vec =
     (case treeSearch_run g ext df costFn evaluations inflation editCost similarity' word2vec of
        Inl e \<Rightarrow> Inl e
      | Inr s \<Rightarrow> Inr (fst (snd (best s)), snd (snd (best s))))"

section \<open>Notions used in the statements\<close>

text \<open>
  What holds of \<open>kv\<close> and \<open>normalization\<close> throughout the first loop of \<^verbatim>\<open>FD._qfn\<close>:
  every stored set is finite, non-empty and no larger than \<open>normalization\<close>.
\<close>

definition FD_inv :: "kvmap \<times> nat \<Rightarrow> bool" where
  "FD_inv st = (case st of (kv, normalization) \<Rightarrow>
      (\<forall>s ts. kv s = Some ts \<longrightarrow> finite ts \<and> ts \<noteq> {} \<and> card ts \<le> normalization))"

text \<open>
  And, once \<open>normalization\<close> is positive, some stored set has exactly that size.
\<close>

definition FD_attained :: "kvmap \<times> nat \<Rightarrow> bool" where
  "FD_attained st = (case st of (kv, normalization) \<Rightarrow>
      (0 < normalization \<longrightarrow> (\<exists>s ts. kv s = Some ts \<and> card ts = normalization)))"

text \<open>
  The distinct target tuples that occur with the source tuple \<open>s\<close>, where \<open>ss\<close> and
  \<open>ts\<close> are the source and target tuples of the rows, in row order.
\<close>

definition FD_targets :: "cell list list \<Rightarrow> cell list list \<Rightarrow> cell list \<Rightarrow> cell list set" where
  "FD_targets ss ts s = set (map snd (filter (\<lambda>p. fst p = s) (zip ss ts)))"

text \<open>A quality function that returns on every table.\<close>

definition total_qfn :: "(table \<Rightarrow> error + vector) \<Rightarrow> bool" where
  "total_qfn q = (\<forall>t. \<exists>v. q t = Inr v)"


subsection \<open>Sample inputs\<close>

text \<open>
  Small concrete inputs on which the theorems below are evaluated. The sample sum adds
  from left to right, as numpy does for arrays of fewer than eight entries.
\<close>

definition sequential_sum :: "vector \<Rightarrow> real" where
  "sequential_sum v = foldl (\<lambda>s x. float64 (s + x)) 0 v"

definition sample_ext :: externals where
  "sample_ext = \<lparr> levenshtein = (\<lambda>a b. if a = b then 0 else 1),
                   similarity = (\<lambda>a b. if a = b then Inr 1 else Inl KeyError),
                   lower_split = (\<lambda>s. if s = [] then [] else [s]),
                   np_sum = sequential_sum \<rparr>"

definition sample_df :: table where
  "sample_df = \<lparr> columns = [''a''], rows = [[CStr ''x''], [CStr ''z'']] \<rparr>"

definition sample_ambiguous :: table where
  "sample_ambiguous =
     \<lparr> columns = [''A'', ''B''],
       rows = [[CStr ''a1'', CStr ''b1''], [CStr ''a1'', CStr ''b2''], [CStr ''a2'', CStr ''b1'']] \<rparr>"

definition sample_functional :: table where
  "sample_functional =
     \<lparr> columns = [''A'', ''B''],
       rows = [[CStr ''a1'', CStr ''b1''], [CStr ''a1'', CStr ''b1''], [CStr ''a2'', CStr ''b2'']] \<rparr>"

text \<open>
  Sample operations for the evaluations below: one that returns the table as it is, one
  that empties every cell, one that raises, and their products.
\<close>

datatype sample_op = Noop | Keep | Blank | Fail | Seq sample_op sample_op

fun sample_name :: "sample_op \<Rightarrow> string" where
  "sample_name Noop = ''noop''"
| "sample_name Keep = ''keep''"
| "sample_name Blank = ''blank''"
| "sample_name Fail = ''fail''"
| "sample_name (Seq a b) = sample_name a @ ''*'' @ sample_name b"

fun sample_depth :: "sample_op \<Rightarrow> real" where
  "sample_depth Noop = 0"
| "sample_depth (Seq a b) = sample_depth a + sample_depth b"
| "sample_depth x = 1"

fun sample_run :: "sample_op \<Rightarrow> table \<Rightarrow> error + table" where
  "sample_run Noop t = Inr t"
| "sample_run Keep t = Inr t"
| "sample_run Blank t = Inr (t\<lparr>rows := map (map (\<lambda>c. CStr [])) (rows t)\<rparr>)"
| "sample_run Fail t = Inl ValueError"
| "sample_run (Seq a b) t = (case sample_run a t of Inl e \<Rightarrow> Inl e | Inr t' \<Rightarrow> sample_run b t')"

definition sample_env :: "sample_op list \<Rightarrow> sample_op environment" where
  "sample_env ops =
     \<lparr> NOOP = Noop, op_mul = Seq, op_name = sample_name, op_depth = sample_depth,
       op_run = sample_run, getAllOperations = (\<lambda>i t. ops),
       hash_values = (\<lambda>t. int (length (concat (map py_str (concat (rows t)))))) \<rparr>"

definition sample_rule :: constraint where
  "sample_rule = DictValue ''a'' [CStr ''y'']"

definition sample_blank :: table where
  "sample_blank = \<lparr> columns = [''a''], rows = [[CStr []], [CStr []]] \<rparr>"

text \<open>A row of nine cells, and the same row with every cell emptied.\<close>

definition sample_wide :: table where
  "sample_wide =
     \<lparr> columns = [''c1'', ''c2'', ''c3'', ''c4'', ''c5'', ''c6'', ''c7'', ''c8'', ''c9''],
       rows = [replicate 9 (CStr ''x'')] \<rparr>"

definition sample_wide_blank :: table where
  "sample_wide_blank =
     \<lparr> columns = [''c1'', ''c2'', ''c3'', ''c4'', ''c5'', ''c6'', ''c7'', ''c8'', ''c9''],
       rows = [replicate 9 (CStr [])] \<rparr>"

section \<open>Rounding: evaluation\<close>

text \<open>
  A positive number whose multiple by \<open>2^k\<close> lies in \<open>[2^52, 2^53)\<close> is rounded at that
  scale.
\<close>

lemma normalise_up:
  "2 ^ 52 \<le> m * 2 ^ k \<Longrightarrow> m * 2 ^ k < 2 ^ 53 \<Longrightarrow> k \<le> f
   \<Longrightarrow> normalise f m e = (m * 2 ^ k, e - int k)"
proof (induction k arbitrary: m e f)
  case 0
  then show ?case by (cases f) simp_all
next
  case (Suc k)
  from Suc.prems(3) obtain f' where f: "f = Suc f'" and kf: "k \<le> f'" by (cases f) simp_all
  have "m * 2 \<le> m * 2 ^ Suc k"
  proof -
    have "(1::real) \<le> 2 ^ k" by simp
    moreover have "0 \<le> m * 2"
    proof (rule ccontr)
      assume "\<not> 0 \<le> m * 2"
      then have "m * 2 ^ Suc k < 0" by (simp add: mult_less_0_iff)
      with Suc.prems(1) show False by (smt (verit) zero_le_power)
    qed
    ultimately have "m * 2 * 1 \<le> m * 2 * 2 ^ k" by (rule mult_left_mono)
    then show ?thesis by (simp add: mult.assoc)
  qed
  with Suc.prems(2) have lt: "m < 2 ^ 52" by simp
  from Suc.prems have a: "2 ^ 52 \<le> (m * 2) * 2 ^ k" "(m * 2) * 2 ^ k < 2 ^ 53"
    by (simp_all add: mult.assoc)
  from Suc.IH[OF a kf, of "e - 1"] lt f show ?case by (simp add: mult.assoc)
qed

lemma float64_pos:
  assumes "2 ^ 52 \<le> x * 2 ^ k" and "x * 2 ^ k < 2 ^ 53" and "k \<le> 2200"
  shows "float64 x = of_int (round_even (x * 2 ^ k)) / 2 ^ k"
proof -
  have "(0::real) < 2 ^ 52" by simp
  from this assms(1) have "0 < x * 2 ^ k" by (rule less_le_trans)
  then have pos: "0 < x" by (simp add: zero_less_mult_iff)
  have n: "normalise 2200 x 0 = (x * 2 ^ k, 0 - int k)"
    by (rule normalise_up[OF assms])
  from pos have ax: "\<bar>x\<bar> = x" "sgn x = 1" "x \<noteq> 0" by simp_all
  have "float64 x = of_int (round_even (x * 2 ^ k))
                * (if 0 \<le> 0 - int k then 2 ^ nat (0 - int k) else 1 / 2 ^ nat (- (0 - int k)))"
    using ax(3) unfolding float64_def ax(1,2) n by simp
  also have "(if 0 \<le> 0 - int k then 2 ^ nat (0 - int k) else 1 / 2 ^ nat (- (0 - int k)))
      = (1::real) / 2 ^ k"
    by (cases "k = 0") simp_all
  finally show ?thesis by simp
qed

lemma float64_1: "float64 1 = 1"
  using float64_pos[of 1 52] by (simp add: round_even_def)

lemma float64_2: "float64 2 = 2"
  using float64_pos[of 2 51] by (simp add: round_even_def)

lemma float64_4: "float64 4 = 4"
  using float64_pos[of 4 50] by (simp add: round_even_def)

lemma float64_0: "float64 0 = 0"
  by (simp add: float64_def)

text \<open>The roundings met when \<open>1.0/9\<close> is added nine times, starting from 0.\<close>

lemma float64_step1: "float64 (1 / 9) = 2001599834386887 / 18014398509481984"
  using float64_pos[of "1 / 9" 56] by (simp add: round_even_def Let_def)

lemma float64_step2: "float64 (2001599834386887 / 18014398509481984) = 2001599834386887 / 18014398509481984"
  using float64_pos[of "2001599834386887 / 18014398509481984" 56] by (simp add: round_even_def Let_def)

lemma float64_step3: "float64 (2001599834386887 / 9007199254740992) = 2001599834386887 / 9007199254740992"
  using float64_pos[of "2001599834386887 / 9007199254740992" 55] by (simp add: round_even_def Let_def)

lemma float64_step4: "float64 (6004799503160661 / 18014398509481984) = 6004799503160661 / 18014398509481984"
  using float64_pos[of "6004799503160661 / 18014398509481984" 54] by (simp add: round_even_def Let_def)

lemma float64_step5: "float64 (2001599834386887 / 4503599627370496) = 2001599834386887 / 4503599627370496"
  using float64_pos[of "2001599834386887 / 4503599627370496" 54] by (simp add: round_even_def Let_def)

lemma float64_step6: "float64 (10007999171934435 / 18014398509481984) = 2501999792983609 / 4503599627370496"
  using float64_pos[of "10007999171934435 / 18014398509481984" 53] by (simp add: round_even_def Let_def)

lemma float64_step7: "float64 (12009599006321323 / 18014398509481984) = 3002399751580331 / 4503599627370496"
  using float64_pos[of "12009599006321323 / 18014398509481984" 53] by (simp add: round_even_def Let_def)

lemma float64_step8: "float64 (14011198840708211 / 18014398509481984) = 3502799710177053 / 4503599627370496"
  using float64_pos[of "14011198840708211 / 18014398509481984" 53] by (simp add: round_even_def Let_def)

lemma float64_step9: "float64 (16012798675095099 / 18014398509481984) = 4003199668773775 / 4503599627370496"
  using float64_pos[of "16012798675095099 / 18014398509481984" 53] by (simp add: round_even_def Let_def)

lemma float64_step10: "float64 (18014398509481987 / 18014398509481984) = 4503599627370497 / 4503599627370496"
  using float64_pos[of "18014398509481987 / 18014398509481984" 52] by (simp add: round_even_def Let_def)

lemmas float64_steps = float64_step1 float64_step2 float64_step3 float64_step4 float64_step5
  float64_step6 float64_step7 float64_step8 float64_step9 float64_step10

section \<open>Quality vectors\<close>

lemma in_unit_Nil: "in_unit []"
  by (simp add: in_unit_def)

lemma in_unit_Cons: "in_unit (x # v) = (0 \<le> x \<and> x \<le> 1 \<and> in_unit v)"
  by (auto simp: in_unit_def)

lemma in_unit_ones: "in_unit (ones N)"
  by (simp add: in_unit_def ones_def list_all_iff)

lemma in_unit_zeros: "in_unit (zeros N)"
  by (simp add: in_unit_def zeros_def list_all_iff)

lemma Constraint_qfn_unit:
  assumes "\<And>v. uqfn df = Inr v \<Longrightarrow> length v = fst (shape df) \<and> in_unit v"
  shows "\<exists>v. Constraint_qfn uqfn df = Inr v \<and> length v = fst (shape df) \<and> in_unit v"
  using assms
  by (cases "uqfn df") (simp_all add: Constraint_qfn_def in_unit_ones, simp add: ones_def)

lemma Predicate_rows_unit:
  "Predicate_rows df attr expr is = Inr v \<Longrightarrow> length v = length is \<and> in_unit v"
proof (induction "is" arbitrary: v)
  case Nil
  then show ?case by (simp add: in_unit_Nil)
next
  case (Cons i "is")
  then show ?case
    by (auto simp: in_unit_Cons split: sum.splits if_splits)
qed

lemma Shape_qfn_unit:
  "Shape__qfn r c df = Inr v \<Longrightarrow> length v = fst (shape df) \<and> in_unit v"
  by (auto simp: Shape__qfn_def Let_def in_unit_ones in_unit_zeros split: if_splits)
    (simp_all add: ones_def zeros_def)

lemma FD_collect_inv:
  "FD_collect df source target is st = Inr st' \<Longrightarrow> FD_inv st \<Longrightarrow> FD_inv st'"
proof (induction "is" arbitrary: st)
  case Nil
  then show ?case by simp
next
  case (Cons i "is")
  obtain kv nrm where st: "st = (kv, nrm)" by (cases st)
  from Cons.prems(1) st obtain s t where
    s: "getitem_row df source i = Inr s" and t: "getitem_row df target i = Inr t"
    and rest: "FD_collect df source target is
        (kv(s \<mapsto> (case kv s of Some old \<Rightarrow> insert t old | None \<Rightarrow> {t})),
         max (card (case kv s of Some old \<Rightarrow> insert t old | None \<Rightarrow> {t})) nrm) = Inr st'"
    by (auto simp: Let_def split: sum.splits)
  have "FD_inv (kv(s \<mapsto> (case kv s of Some old \<Rightarrow> insert t old | None \<Rightarrow> {t})),
         max (card (case kv s of Some old \<Rightarrow> insert t old | None \<Rightarrow> {t})) nrm)"
    using Cons.prems(2) st
    by (auto simp: FD_inv_def split: option.splits) (meson le_max_iff_disj)+
  with Cons.IH rest show ?case by blast
qed

lemma FD_fill_unit:
  "FD_fill df source kv nrm is = Inr v \<Longrightarrow> FD_inv (kv, nrm) \<Longrightarrow> length v = length is \<and> in_unit v"
proof (induction "is" arbitrary: v)
  case Nil
  then show ?case by (simp add: in_unit_Nil)
next
  case (Cons i "is")
  from Cons.prems(1) obtain s ts w where
    s: "getitem_row df source i = Inr s" and ts: "kv s = Some ts" and n0: "nrm \<noteq> 0"
    and w: "FD_fill df source kv nrm is = Inr w"
    and v: "v = real_of_int (int (card ts) - 1) / real nrm # w"
    by (auto split: sum.splits option.splits if_splits)
  from Cons.prems(2) ts have c: "finite ts" "ts \<noteq> {}" "card ts \<le> nrm"
    by (auto simp: FD_inv_def)
  then have "1 \<le> card ts" by (simp add: Suc_leI card_gt_0_iff)
  then have "0 \<le> real_of_int (int (card ts) - 1) / real nrm"
    "real_of_int (int (card ts) - 1) / real nrm \<le> 1"
    using c(3) n0 by (auto simp: field_simps)
  with Cons.IH[OF w Cons.prems(2)] v show ?case by (simp add: in_unit_Cons)
qed

lemma FD_qfn_unit:
  "FD__qfn source target df = Inr v \<Longrightarrow> length v = fst (shape df) \<and> in_unit v"
proof -
  assume a: "FD__qfn source target df = Inr v"
  then obtain kv nrm where c: "FD_collect df source target [0..<fst (shape df)] (Map.empty, 0) = Inr (kv, nrm)"
    and f: "FD_fill df source kv nrm [0..<fst (shape df)] = Inr v"
    by (auto simp: FD__qfn_def Let_def split: sum.splits)
  have "FD_inv (Map.empty, 0)" by (simp add: FD_inv_def)
  from FD_collect_inv[OF c this] FD_fill_unit[OF f] show ?thesis by simp
qed

lemma combine_qfn: "combine self other q = Inr c \<Longrightarrow> qfn c = q"
  by (auto simp: combine_def split: sum.splits)

lemma Constraint_add_qfn: "Constraint_add a b = Inr c \<Longrightarrow> qfn c = add_qfn a b"
  by (simp add: Constraint_add_def combine_qfn)

lemma Constraint_mul_qfn: "Constraint_mul a (Con b) = Inr c \<Longrightarrow> qfn c = max_qfn a (Con b)"
  by (simp add: Constraint_mul_def operand_float_def combine_qfn)

lemma in_unit_nth: "in_unit v = (\<forall>i<length v. 0 \<le> v ! i \<and> v ! i \<le> 1)"
  by (simp add: in_unit_def list_all_length)

lemma add_qfn_unit:
  assumes "qfn a df = Inr u" "length u = N" "in_unit u"
    and "qfn b df = Inr v" "length v = N" "in_unit v"
  shows "add_qfn a b df = Inr (map2 (\<lambda>x y. (x + y) / 2) u v)
    \<and> length (map2 (\<lambda>x y. (x + y) / 2) u v) = N \<and> in_unit (map2 (\<lambda>x y. (x + y) / 2) u v)"
proof -
  have "add_qfn a b df = Inr (map2 (\<lambda>x y. (x + y) / 2) u v)"
    using assms(1,2,4,5) by (simp add: add_qfn_def np_binop_def map_zip_map zip_map_fst_snd split_def)
  moreover have "in_unit (map2 (\<lambda>x y. (x + y) / 2) u v)"
    unfolding in_unit_nth
  proof (intro allI impI)
    fix i assume "i < length (map2 (\<lambda>x y. (x + y) / 2) u v)"
    with assms(2,5) have i: "i < length u" "i < length v" by simp_all
    with assms(3,6) have "0 \<le> u ! i \<and> u ! i \<le> 1" "0 \<le> v ! i \<and> v ! i \<le> 1"
      by (simp_all add: in_unit_nth)
    with i show "0 \<le> map2 (\<lambda>x y. (x + y) / 2) u v ! i \<and> map2 (\<lambda>x y. (x + y) / 2) u v ! i \<le> 1"
      by simp
  qed
  ultimately show ?thesis using assms(2,5) by simp
qed

lemma max_qfn_unit:
  assumes "qfn a df = Inr u" "length u = N" "in_unit u"
    and "qfn b df = Inr v" "length v = N" "in_unit v"
  shows "max_qfn a (Con b) df = Inr (map2 max u v)
    \<and> length (map2 max u v) = N \<and> in_unit (map2 max u v)"
proof -
  have "max_qfn a (Con b) df = Inr (map2 max u v)"
    using assms(1,2,4,5) by (simp add: max_qfn_def operand_qfn_def np_binop_def)
  moreover have "in_unit (map2 max u v)"
    using assms(2,3,5,6) by (auto simp: in_unit_nth)
  ultimately show ?thesis using assms(2,5) by simp
qed

lemma CellEdit_rows_length:
  "CellEdit_rows ext metric source df p is = Inr v \<Longrightarrow> length v = length is"
proof (induction "is" arbitrary: v)
  case Nil
  then show ?case by simp
next
  case (Cons i "is")
  then show ?case by (auto split: sum.splits)
qed

lemma CellEdit_qfn_length:
  "CellEdit__qfn ext source metric df = Inr v \<Longrightarrow> length v = fst (shape df)"
  using CellEdit_rows_length[of ext metric source df "snd (shape df)" "[0..<fst (shape df)]" v]
  by (auto simp: CellEdit__qfn_def Let_def ones_def split: if_splits)

lemma Constraint_qfn_length:
  assumes "\<And>v. uqfn df = Inr v \<Longrightarrow> length v = fst (shape df)"
  shows "\<exists>v. Constraint_qfn uqfn df = Inr v \<and> length v = fst (shape df)"
  using assms
  by (cases "uqfn df") (simp_all add: Constraint_qfn_def ones_def)

lemma rule_object_unit:
  assumes "rule_object c"
  shows "\<exists>v. qfn c df = Inr v \<and> length v = fst (shape df) \<and> in_unit v"
  using assms
proof (induction rule: rule_object.induct)
  case (rule_Constraint h)
  have "\<exists>v. Constraint_qfn Constraint__qfn df = Inr v \<and> length v = fst (shape df) \<and> in_unit v"
    by (rule Constraint_qfn_unit) (simp add: Constraint__qfn_def)
  then show ?case
    by (simp add: Constraint_def Constraint_init_def)
next
  case (rule_FD source target)
  show ?case by (simp add: FD_def Constraint_qfn_unit FD_qfn_unit)
next
  case (rule_Predicate cb attr expr)
  have "Predicate__qfn attr expr df = Inr v \<Longrightarrow> length v = fst (shape df) \<and> in_unit v" for v
    using Predicate_rows_unit[of df attr expr "[0..<fst (shape df)]" v]
    by (simp add: Predicate__qfn_def)
  then show ?case
    by (simp add: Predicate_init_def Constraint_init_def Constraint_qfn_unit)
next
  case (rule_Shape rows' columns')
  show ?case by (simp add: Shape_def Constraint_qfn_unit Shape_qfn_unit)
next
  case (rule_add a b c)
  from rule_add.IH obtain u v where
    "qfn a df = Inr u" "length u = fst (shape df)" "in_unit u"
    "qfn b df = Inr v" "length v = fst (shape df)" "in_unit v" by blast
  from add_qfn_unit[OF this] Constraint_add_qfn[OF rule_add.hyps(3)] show ?case by auto
next
  case (rule_mul a b c)
  from rule_mul.IH obtain u v where
    "qfn a df = Inr u" "length u = fst (shape df)" "in_unit u"
    "qfn b df = Inr v" "length v = fst (shape df)" "in_unit v" by blast
  from max_qfn_unit[OF this] Constraint_mul_qfn[OF rule_mul.hyps(3)] show ?case by auto
qed

lemma constraint_object_length:
  assumes "constraint_object ext c"
  shows "\<exists>v. qfn c df = Inr v \<and> length v = fst (shape df)"
  using assms
proof (induction rule: constraint_object.induct)
  case (obj_rule c)
  from rule_object_unit[OF this, of df] show ?case by blast
next
  case (obj_CellEdit source metric)
  have "\<exists>v. Constraint_qfn (CellEdit__qfn ext source (CellEdit_metric source metric)) df = Inr v
          \<and> length v = fst (shape df)"
    by (rule Constraint_qfn_length) (rule CellEdit_qfn_length)
  then show ?case by (simp add: CellEdit_def)
next
  case (obj_add a b c)
  from obj_add.IH obtain u v where
    "qfn a df = Inr u" "length u = fst (shape df)" "qfn b df = Inr v" "length v = fst (shape df)"
    by blast
  then have "\<exists>w. add_qfn a b df = Inr w \<and> length w = fst (shape df)"
    by (simp add: add_qfn_def np_binop_def)
  with Constraint_add_qfn[OF obj_add.hyps(3)] show ?case by simp
next
  case (obj_mul a b c)
  from obj_mul.IH obtain u v where
    "qfn a df = Inr u" "length u = fst (shape df)" "qfn b df = Inr v" "length v = fst (shape df)"
    by blast
  then have "\<exists>w. max_qfn a (Con b) df = Inr w \<and> length w = fst (shape df)"
    by (simp add: max_qfn_def operand_qfn_def np_binop_def)
  with Constraint_mul_qfn[OF obj_mul.hyps(3)] show ?case by simp
qed

lemma upt_9: "[0..<9] = [0, 1, 2, 3, 4, 5, 6, 7, 8]"
  by (simp add: upt_rec)

lemma sample_wide_score:
  "qfn (CellEdit sample_ext sample_wide Map.empty) sample_wide_blank
     = Inr [4503599627370497 / 4503599627370496]"
  by (simp add: CellEdit_def Constraint_qfn_def CellEdit__qfn_def shape_def sample_wide_def
      sample_wide_blank_def upt_9 iloc_def CellEdit_cell_def float64_steps eval_nat_numeral)

text \<open>
  C1, as the program has it. Every constraint object the module can build, called on any
  table with \<open>N\<close> rows, returns a vector of length \<open>N\<close> and does not raise; the entries
  lie in \<open>[0,1]\<close> when the object is a rule object, that is, built without \<^verbatim>\<open>CellEdit\<close>; and
  whenever the scoring logic \<^verbatim>\<open>_qfn\<close> of a class raises, \<^verbatim>\<open>Constraint.qfn\<close> returns the
  all-ones vector of length \<open>N\<close>.
\<close>

theorem qfn_total_length:
  assumes "constraint_object ext c"
  shows "(\<exists>v. qfn c df = Inr v \<and> length v = fst (shape df) \<and> (rule_object c \<longrightarrow> in_unit v))
    \<and> (\<forall>uqfn e. uqfn df = Inl e \<longrightarrow> Constraint_qfn uqfn df = Inr (ones (fst (shape df))))"
proof -
  from constraint_object_length[OF assms, of df] obtain v where
    v: "qfn c df = Inr v" "length v = fst (shape df)" by blast
  have "in_unit v" if "rule_object c"
    using rule_object_unit[OF that, of df] v(1) by auto
  with v show ?thesis by (simp add: Constraint_qfn_def)
qed

theorem qfn_total_length_witness:
  "constraint_object sample_ext (DictValue ''a'' [CStr ''x''])
   \<and> rule_object (DictValue ''a'' [CStr ''x''])
   \<and> (\<exists>v. qfn (DictValue ''a'' [CStr ''x'']) sample_df = Inr v \<and> length v = fst (shape sample_df)
          \<and> in_unit v)
   \<and> Constraint_qfn Constraint__qfn sample_df = Inr (ones (fst (shape sample_df)))"
proof -
  have r: "rule_object (DictValue ''a'' [CStr ''x''])"
    unfolding DictValue_def by (rule rule_Predicate)
  then have o: "constraint_object sample_ext (DictValue ''a'' [CStr ''x''])"
    by (rule obj_rule)
  have e: "Constraint__qfn sample_df = Inl TypeError" by (simp add: Constraint__qfn_def)
  from qfn_total_length[OF o, of sample_df] o r e
  show ?thesis by blast
qed

text \<open>
  A row score of \<^verbatim>\<open>CellEdit\<close> is a sum of \<open>p\<close> rounded terms. On a row of nine cells that
  were all emptied it is nine times \<open>1.0/9\<close>, added one by one:
  \<open>1.0000000000000002\<close>, which is above 1.
\<close>

theorem CellEdit_score_above_one:
  "constraint_object sample_ext (CellEdit sample_ext sample_wide Map.empty)
   \<and> qfn (CellEdit sample_ext sample_wide Map.empty) sample_wide_blank
       = Inr [4503599627370497 / 4503599627370496]
   \<and> \<not> in_unit [4503599627370497 / 4503599627370496]"
  using sample_wide_score obj_CellEdit[of sample_ext sample_wide Map.empty]
  by (simp add: in_unit_def)

section \<open>The score of a functional dependency\<close>

lemma FD_targets_nth:
  assumes "length ss = N" "length ts = N"
  shows "FD_targets ss ts s = {ts ! i | i. i < N \<and> ss ! i = s}"
  using assms by (auto simp: FD_targets_def set_zip image_iff)

lemma FD_collect_result:
  assumes "\<forall>i\<in>set is. getitem_row df source i = Inr (S i) \<and> getitem_row df target i = Inr (T i)"
  shows "\<exists>kv' n'. FD_collect df source target is (kv, n) = Inr (kv', n')
      \<and> (\<forall>s. kv' s = (if \<exists>i\<in>set is. S i = s
                       then Some ((case kv s of None \<Rightarrow> {} | Some old \<Rightarrow> old)
                                   \<union> {T i | i. i \<in> set is \<and> S i = s})
                       else kv s))"
  using assms
proof (induction "is" arbitrary: kv n)
  case Nil
  then show ?case by simp
next
  case (Cons i "is")
  let ?tset = "(case kv (S i) of Some old \<Rightarrow> insert (T i) old | None \<Rightarrow> {T i})"
  let ?kv1 = "kv(S i \<mapsto> ?tset)"
  from Cons.prems have i: "getitem_row df source i = Inr (S i)" "getitem_row df target i = Inr (T i)"
    and rest: "\<forall>i\<in>set is. getitem_row df source i = Inr (S i) \<and> getitem_row df target i = Inr (T i)"
    by simp_all
  from Cons.IH[OF rest, of ?kv1 "max (card ?tset) n"] obtain kv' n' where
    r: "FD_collect df source target is (?kv1, max (card ?tset) n) = Inr (kv', n')"
    and k: "\<forall>s. kv' s = (if \<exists>i\<in>set is. S i = s
                       then Some ((case ?kv1 s of None \<Rightarrow> {} | Some old \<Rightarrow> old)
                                   \<union> {T i | i. i \<in> set is \<and> S i = s})
                       else ?kv1 s)"
    by blast
  have "FD_collect df source target (i # is) (kv, n) = Inr (kv', n')"
    using i r by (simp add: Let_def)
  moreover have "kv' s = (if \<exists>j\<in>set (i # is). S j = s
                       then Some ((case kv s of None \<Rightarrow> {} | Some old \<Rightarrow> old)
                                   \<union> {T j | j. j \<in> set (i # is) \<and> S j = s})
                       else kv s)" for s
  proof (cases "S i = s")
    case True
    then show ?thesis
      using k[rule_format, of s] by (auto split: option.splits)
  next
    case False
    then show ?thesis
      using k[rule_format, of s] by (auto split: option.splits)
  qed
  ultimately show ?case by blast
qed

lemma FD_collect_attained:
  "FD_collect df source target is st = Inr st' \<Longrightarrow> FD_inv st \<Longrightarrow> FD_attained st
   \<Longrightarrow> FD_attained st'"
proof (induction "is" arbitrary: st)
  case Nil
  then show ?case by simp
next
  case (Cons i "is")
  obtain kv nrm where st: "st = (kv, nrm)" by (cases st)
  from Cons.prems(1) st obtain s t where
    s: "getitem_row df source i = Inr s" and t: "getitem_row df target i = Inr t"
    and rest: "FD_collect df source target is
        (kv(s \<mapsto> (case kv s of Some old \<Rightarrow> insert t old | None \<Rightarrow> {t})),
         max (card (case kv s of Some old \<Rightarrow> insert t old | None \<Rightarrow> {t})) nrm) = Inr st'"
    by (auto simp: Let_def split: sum.splits)
  let ?tset = "(case kv s of Some old \<Rightarrow> insert t old | None \<Rightarrow> {t})"
  let ?st1 = "(kv(s \<mapsto> ?tset), max (card ?tset) nrm)"
  have one: "FD_collect df source target [i] st = Inr ?st1"
    using s t st by (simp add: Let_def)
  have inv1: "FD_inv ?st1" by (rule FD_collect_inv[OF one Cons.prems(2)])
  have "FD_attained ?st1"
  proof (cases "nrm \<le> card ?tset")
    case True
    then show ?thesis by (auto simp: FD_attained_def max_def)
  next
    case False
    then have lt: "card ?tset < nrm" by simp
    then have "0 < nrm" by simp
    with Cons.prems(3) st obtain s0 ts0 where s0: "kv s0 = Some ts0" "card ts0 = nrm"
      by (auto simp: FD_attained_def)
    have "s0 \<noteq> s"
    proof
      assume "s0 = s"
      with s0 have "?tset = insert t ts0" by simp
      moreover from Cons.prems(2) st s0 have "finite ts0" by (auto simp: FD_inv_def)
      ultimately have "card ts0 \<le> card ?tset" by (simp add: card_insert_le)
      with s0 lt show False by simp
    qed
    with s0 lt show ?thesis by (auto simp: FD_attained_def max_def)
  qed
  with Cons.IH[OF rest inv1] show ?case by blast
qed

lemma FD_fill_result:
  assumes "\<forall>i\<in>set is. getitem_row df source i = Inr (S i)"
    and "\<forall>i\<in>set is. kv (S i) = Some (G (S i))" and "n \<noteq> 0"
  shows "FD_fill df source kv n is
     = Inr (map (\<lambda>i. real_of_int (int (card (G (S i))) - 1) / real n) is)"
  using assms by (induction "is") simp_all

lemma all_less_3: "(\<forall>i<3. P i) = (P 0 \<and> P (Suc 0) \<and> P (Suc (Suc 0)))"
  by (auto simp: eval_nat_numeral less_Suc_eq)

lemma upt_3: "[0..<3] = [0, Suc 0, Suc (Suc 0)]"
  by (simp add: upt_rec eval_nat_numeral)

text \<open>
  C4. On a non-empty table that has the source and the target columns, with \<open>ss\<close> and
  \<open>ts\<close> the source and target tuples of its rows: the score of row \<open>i\<close> is
  \<open>(k - 1) / m\<close>, where \<open>k\<close> is the number of distinct target tuples occurring with the
  source tuple of row \<open>i\<close> in the whole table and \<open>m\<close> is the largest such number over
  all source tuples. When every source tuple occurs with exactly one target tuple, the
  score vector is all zeros.
\<close>

theorem FD_qfn_score:
  assumes nonempty: "0 < fst (shape df)"
    and len: "length ss = fst (shape df)" "length ts = fst (shape df)"
    and src: "\<forall>i<fst (shape df). getitem_row df source i = Inr (ss ! i)"
    and tgt: "\<forall>i<fst (shape df). getitem_row df target i = Inr (ts ! i)"
  shows "qfn (FD source target) df
           = Inr (map (\<lambda>i. (real (card (FD_targets ss ts (ss ! i))) - 1)
                            / real (Max ((\<lambda>s. card (FD_targets ss ts s)) ` set ss)))
                      [0..<fst (shape df)])
       \<and> ((\<forall>s\<in>set ss. card (FD_targets ss ts s) = 1)
            \<longrightarrow> qfn (FD source target) df = Inr (zeros (fst (shape df))))"
proof -
  let ?N = "fst (shape df)"
  let ?S = "\<lambda>i. ss ! i" and ?T = "\<lambda>i. ts ! i"
  let ?G = "FD_targets ss ts"
  have G: "?G s = {ts ! i | i. i < ?N \<and> ss ! i = s}" for s
    by (rule FD_targets_nth[OF len])
  have all: "\<forall>i\<in>set [0..<?N]. getitem_row df source i = Inr (?S i)
                \<and> getitem_row df target i = Inr (?T i)"
    using src tgt by simp
  from FD_collect_result[OF all, of Map.empty 0] obtain kv n where
    c: "FD_collect df source target [0..<?N] (Map.empty, 0) = Inr (kv, n)"
    and kv: "\<forall>s. kv s = (if \<exists>i\<in>set [0..<?N]. ss ! i = s
                       then Some ({} \<union> {ts ! i | i. i \<in> set [0..<?N] \<and> ss ! i = s})
                       else None)"
    by auto
  have mem: "(\<exists>i\<in>set [0..<?N]. ss ! i = s) = (s \<in> set ss)" for s
    using len(1) by (auto simp: in_set_conv_nth)
  have kv': "kv s = (if s \<in> set ss then Some (?G s) else None)" for s
    using kv[rule_format, of s] mem[of s] G[of s] by auto
  have i0: "FD_inv (Map.empty, 0)" by (simp add: FD_inv_def)
  have a0: "FD_attained (Map.empty, 0)" by (simp add: FD_attained_def)
  have inv: "FD_inv (kv, n)" by (rule FD_collect_inv[OF c i0])
  have att: "FD_attained (kv, n)" by (rule FD_collect_attained[OF c i0 a0])
  have le: "card (?G s) \<le> n" if "s \<in> set ss" for s
    using inv kv'[of s] that by (auto simp: FD_inv_def)
  have pos: "0 < card (?G s)" if "s \<in> set ss" for s
    using inv kv'[of s] that by (auto simp: FD_inv_def card_gt_0_iff)
  from nonempty len(1) have "ss ! 0 \<in> set ss" by simp
  then obtain s0 where s0: "s0 \<in> set ss" by blast
  from le[OF s0] pos[OF s0] have npos: "0 < n" by simp
  with att obtain s1 ts1 where s1: "kv s1 = Some ts1" "card ts1 = n"
    by (auto simp: FD_attained_def)
  with kv'[of s1] have s1': "s1 \<in> set ss" "card (?G s1) = n"
    by (auto split: if_splits)
  have n: "Max ((\<lambda>s. card (?G s)) ` set ss) = n"
  proof (rule Max_eqI)
    show "finite ((\<lambda>s. card (?G s)) ` set ss)" by simp
    show "\<And>y. y \<in> (\<lambda>s. card (?G s)) ` set ss \<Longrightarrow> y \<le> n" using le by auto
    show "n \<in> (\<lambda>s. card (?G s)) ` set ss" using s1' by auto
  qed
  have src': "\<forall>i\<in>set [0..<?N]. getitem_row df source i = Inr (?S i)" using src by simp
  have kvS: "\<forall>i\<in>set [0..<?N]. kv (?S i) = Some (?G (?S i))"
    using kv' len(1) by simp
  from npos have n0: "n \<noteq> 0" by simp
  have fill: "FD_fill df source kv n [0..<?N]
     = Inr (map (\<lambda>i. real_of_int (int (card (?G (?S i))) - 1) / real n) [0..<?N])"
    by (rule FD_fill_result[OF src' kvS n0])
  have q: "qfn (FD source target) df
     = Inr (map (\<lambda>i. real_of_int (int (card (?G (?S i))) - 1) / real n) [0..<?N])"
    using c fill by (simp add: FD_def Constraint_qfn_def FD__qfn_def Let_def)
  have first: "qfn (FD source target) df
           = Inr (map (\<lambda>i. (real (card (?G (ss ! i))) - 1)
                            / real (Max ((\<lambda>s. card (?G s)) ` set ss)))
                      [0..<?N])"
    using q n by simp
  have second: "qfn (FD source target) df = Inr (zeros ?N)"
    if one: "\<forall>s\<in>set ss. card (?G s) = 1"
  proof -
    have "map (\<lambda>i. real_of_int (int (card (?G (?S i))) - 1) / real n) [0..<?N]
        = map (\<lambda>i. 0) [0..<?N]"
      using one len(1) by (intro map_cong) auto
    also have "\<dots> = zeros ?N" by (simp add: zeros_def map_replicate_const)
    finally show ?thesis using q by simp
  qed
  from first second show ?thesis by blast
qed

theorem FD_qfn_score_witness:
  "qfn (FD [''A''] [''B'']) sample_ambiguous = Inr [1 / 2, 1 / 2, 0]
   \<and> qfn (FD [''A''] [''B'']) sample_functional = Inr [0, 0, 0]"
proof -
  let ?ss = "[[CStr ''a1''], [CStr ''a1''], [CStr ''a2'']]"
  let ?ts = "[[CStr ''b1''], [CStr ''b2''], [CStr ''b1'']]"
  let ?ts' = "[[CStr ''b1''], [CStr ''b1''], [CStr ''b2'']]"
  have N: "fst (shape sample_ambiguous) = 3" "fst (shape sample_functional) = 3"
    by (simp_all add: shape_def sample_ambiguous_def sample_functional_def)
  have pos: "0 < fst (shape sample_ambiguous)" "0 < fst (shape sample_functional)"
    by (simp_all add: N)
  have len: "length ?ss = fst (shape sample_ambiguous)" "length ?ts = fst (shape sample_ambiguous)"
    "length ?ss = fst (shape sample_functional)" "length ?ts' = fst (shape sample_functional)"
    by (simp_all add: N)
  have sa: "\<forall>i<fst (shape sample_ambiguous). getitem_row sample_ambiguous [''A''] i = Inr (?ss ! i)"
    by (simp add: N all_less_3) (simp add: sample_ambiguous_def getitem_def iloc_def)
  have ta: "\<forall>i<fst (shape sample_ambiguous). getitem_row sample_ambiguous [''B''] i = Inr (?ts ! i)"
    by (simp add: N all_less_3) (simp add: sample_ambiguous_def getitem_def iloc_def)
  have sf: "\<forall>i<fst (shape sample_functional). getitem_row sample_functional [''A''] i = Inr (?ss ! i)"
    by (simp add: N all_less_3) (simp add: sample_functional_def getitem_def iloc_def)
  have tf: "\<forall>i<fst (shape sample_functional). getitem_row sample_functional [''B''] i = Inr (?ts' ! i)"
    by (simp add: N all_less_3) (simp add: sample_functional_def getitem_def iloc_def)
  have one: "\<forall>s\<in>set ?ss. card (FD_targets ?ss ?ts' s) = 1"
    by (simp add: FD_targets_def)
  have a: "qfn (FD [''A''] [''B'']) sample_ambiguous
           = Inr (map (\<lambda>i. (real (card (FD_targets ?ss ?ts (?ss ! i))) - 1)
                            / real (Max ((\<lambda>s. card (FD_targets ?ss ?ts s)) ` set ?ss)))
                      [0..<fst (shape sample_ambiguous)])"
    using FD_qfn_score[OF pos(1) len(1,2) sa ta] by blast
  have b: "qfn (FD [''A''] [''B'']) sample_functional = Inr (zeros (fst (shape sample_functional)))"
    using FD_qfn_score[OF pos(2) len(3,4) sf tf] one by blast
  have m: "map (\<lambda>i. (real (card (FD_targets ?ss ?ts (?ss ! i))) - 1)
                            / real (Max ((\<lambda>s. card (FD_targets ?ss ?ts s)) ` set ?ss)))
                      [0..<fst (shape sample_ambiguous)] = [1 / 2, 1 / 2, 0]"
    by (simp add: N upt_3 FD_targets_def)
  have a': "qfn (FD [''A''] [''B'']) sample_ambiguous = Inr [1 / 2, 1 / 2, 0]"
    using a by (simp only: m)
  have b': "qfn (FD [''A''] [''B'']) sample_functional = Inr [0, 0, 0]"
    using b by (simp add: N zeros_def eval_nat_numeral)
  from a' b' show ?thesis by (rule conjI)
qed

section \<open>The sum of two constraints\<close>

lemma upt_2: "[0..<2] = [0, Suc 0]"
  by (simp add: upt_rec)

lemma DictValue_x_sample: "qfn (DictValue ''a'' [CStr ''x'']) sample_df = Inr [0, 1]"
  by (simp add: DictValue_def Predicate_init_def Constraint_init_def Constraint_qfn_def
      Predicate__qfn_def shape_def sample_df_def getitem_def iloc_def upt_2)

text \<open>
  C5, as the program has it. For constraints \<open>a\<close> and \<open>b\<close> that both carry \<open>hint\<close> and
  \<open>hintParams\<close>, \<open>a + b\<close> is built; its hint is the union of the two hints; its
  parameters are the union of the two maps in which a key of both keeps the value of the
  right operand \<open>b\<close>; and on every table on which \<open>a\<close> and \<open>b\<close> return vectors of one
  length it returns, row by row, their arithmetic mean.
\<close>

theorem Constraint_add_right_wins:
  assumes "hint a = Some ha" and "hint b = Some hb"
    and "hintParams a = Some pa" and "hintParams b = Some pb"
  shows "\<exists>c. Constraint_add a b = Inr c
           \<and> hint c = Some (ha \<union> hb)
           \<and> hintParams c = Some (\<lambda>k. case pb k of Some v \<Rightarrow> Some v | None \<Rightarrow> pa k)
           \<and> (\<forall>df u v. qfn a df = Inr u \<and> qfn b df = Inr v \<and> length u = length v
                 \<longrightarrow> qfn c df = Inr (map2 (\<lambda>x y. (x + y) / 2) u v))"
  using assms
  by (auto simp: Constraint_add_def combine_def attr_hint_def attr_hintParams_def operand_hint_def
      operand_hintParams_def add_qfn_def np_binop_def map_add_def zip_map_fst_snd map_zip_map)

theorem Constraint_add_right_wins_witness:
  "(case Constraint_add (DictValue ''a'' [CStr ''x'']) (DictValue ''b'' [CStr ''y'']) of
      Inl e \<Rightarrow> False
    | Inr c \<Rightarrow> hint c = Some {''a'', ''b''}
         \<and> map_option (\<lambda>m. m ''codebook'') (hintParams c) = Some (Some [CStr ''y''])
         \<and> qfn c sample_df = Inr [1 / 2, 1])"
proof -
  let ?a = "DictValue ''a'' [CStr ''x'']" and ?b = "DictValue ''b'' [CStr ''y'']"
  have h: "hint ?a = Some {''a''}" "hint ?b = Some {''b''}"
    "hintParams ?a = Some [''codebook'' \<mapsto> [CStr ''x'']]"
    "hintParams ?b = Some [''codebook'' \<mapsto> [CStr ''y'']]"
    by (simp_all add: DictValue_def Predicate_init_def Constraint_init_def)
  have b: "qfn ?b sample_df = Inr [1, 1]"
    by (simp add: DictValue_def Predicate_init_def Constraint_init_def Constraint_qfn_def
      Predicate__qfn_def shape_def sample_df_def getitem_def iloc_def upt_2 ones_def)
  from Constraint_add_right_wins[OF h] obtain c where
    c: "Constraint_add ?a ?b = Inr c" "hint c = Some ({''a''} \<union> {''b''})"
      "hintParams c = Some (\<lambda>k. case [''codebook'' \<mapsto> [CStr ''y'']] k of Some v \<Rightarrow> Some v
                                 | None \<Rightarrow> [''codebook'' \<mapsto> [CStr ''x'']] k)"
      "\<forall>df u v. qfn ?a df = Inr u \<and> qfn ?b df = Inr v \<and> length u = length v
                 \<longrightarrow> qfn c df = Inr (map2 (\<lambda>x y. (x + y) / 2) u v)"
    by blast
  from c(4)[rule_format, of sample_df "[0, 1]" "[1, 1]"] DictValue_x_sample b
  have "qfn c sample_df = Inr (map2 (\<lambda>x y. (x + y) / 2) [0, 1] [1, 1])"
    by simp
  with c(1,2,3) show ?thesis by (simp add: insert_commute)
qed

text \<open>
  Two dictionary constraints on one column both store the key \<^verbatim>\<open>codebook\<close>; their sum
  holds the right operand's codebook, not the left one's.
\<close>

theorem Constraint_add_left_value_replaced:
  "map_option (\<lambda>m. m ''codebook'') (hintParams (DictValue ''a'' [CStr ''x''])) = Some (Some [CStr ''x''])
   \<and> map_option (\<lambda>m. m ''codebook'') (hintParams (DictValue ''a'' [CStr ''y''])) = Some (Some [CStr ''y''])
   \<and> (case Constraint_add (DictValue ''a'' [CStr ''x'']) (DictValue ''a'' [CStr ''y'']) of
          Inl e \<Rightarrow> False
        | Inr c \<Rightarrow> map_option (\<lambda>m. m ''codebook'') (hintParams c) = Some (Some [CStr ''y'']))"
  by (simp add: Constraint_add_def combine_def attr_hint_def attr_hintParams_def operand_hint_def
      operand_hintParams_def DictValue_def Predicate_init_def Constraint_init_def)

section \<open>The search loop\<close>

subsection \<open>The loop returns, and invariants of the loop\<close>

lemma Constraint_qfn_total: "total_qfn (Constraint_qfn uqfn)"
  by (simp add: total_qfn_def Constraint_qfn_def split: sum.splits)

lemma CellEdit_total: "total_qfn (qfn (CellEdit ext source metric))"
  by (simp add: CellEdit_def Constraint_qfn_total)

lemma combined_score_total:
  assumes "total_qfn (qfn costFn)" and "total_qfn efn"
  shows "\<exists>n. combined_score ext costFn efn editCost output = Inr n"
proof -
  from assms obtain u v where "qfn costFn output = Inr u" "efn output = Inr v"
    unfolding total_qfn_def by metis
  then show ?thesis by (simp add: combined_score_def)
qed

lemma try_operation_total:
  assumes "total_qfn (qfn costFn)" and "total_qfn efn"
  shows "\<exists>s'. try_operation g ext costFn efn editCost op frame s opbranch = Inr s'"
proof -
  have "\<exists>n. combined_score ext costFn efn editCost out = Inr n" for out
    by (rule combined_score_total[OF assms])
  then have "\<exists>s'. (case combined_score ext costFn efn editCost out of
                 Inl e \<Rightarrow> Inl e
               | Inr n \<Rightarrow> Inr (f n)) = Inr (s' :: 'a search)" for out and f
    by (metis sum.case(2))
  then show ?thesis
    unfolding try_operation_def Let_def
    by (simp split: sum.split)
qed

lemma for_operations_total:
  assumes "total_qfn (qfn costFn)" and "total_qfn efn"
  shows "\<exists>s'. for_operations g ext costFn efn editCost op frame ops s = Inr s'"
proof (induction ops arbitrary: s)
  case Nil
  then show ?case by simp
next
  case (Cons opbranch rest)
  from try_operation_total[OF assms, of g ext editCost op frame s opbranch] obtain s1 where
    "try_operation g ext costFn efn editCost op frame s opbranch = Inr s1" by blast
  with Cons show ?case by simp
qed

lemma search_round_total:
  assumes "total_qfn (qfn costFn)" and "total_qfn efn"
  shows "\<exists>s'. search_round g ext costFn efn inflation editCost i s = Inr s'"
proof -
  obtain "value" op frame where b: "best s = (value, op, frame)" by (cases "best s")
  from assms(1) obtain v where "qfn costFn frame = Inr v" unfolding total_qfn_def by blast
  with b for_operations_total[OF assms, of g ext editCost op frame "getAllOperations g i frame" s]
  show ?thesis
    by (auto simp: search_round_def Let_def)
qed

lemma for_rounds_total:
  assumes "total_qfn (qfn costFn)" and "total_qfn efn"
  shows "\<exists>s'. for_rounds g ext costFn efn inflation editCost is s = Inr s'"
proof (induction "is" arbitrary: s)
  case Nil
  then show ?case by simp
next
  case (Cons i "is")
  from search_round_total[OF assms, of g ext inflation editCost i s] obtain s1 where
    "search_round g ext costFn efn inflation editCost i s = Inr s1" by blast
  with Cons show ?case by simp
qed

lemma for_operations_invariant:
  assumes step: "\<And>s s' opbranch. I s \<Longrightarrow>
      try_operation g ext costFn efn editCost op frame s opbranch = Inr s' \<Longrightarrow> I s'"
  shows "for_operations g ext costFn efn editCost op frame ops s = Inr s' \<Longrightarrow> I s \<Longrightarrow> I s'"
proof (induction ops arbitrary: s)
  case Nil
  then show ?case by simp
next
  case (Cons opbranch rest)
  from Cons.prems(1) obtain s1 where
    a: "try_operation g ext costFn efn editCost op frame s opbranch = Inr s1"
    and b: "for_operations g ext costFn efn editCost op frame rest s1 = Inr s'"
    by (auto split: sum.splits)
  from step[OF Cons.prems(2) a] Cons.IH[OF b] show ?case by blast
qed

lemma search_round_invariant:
  assumes step: "\<And>op frame s s' opbranch. I s \<Longrightarrow>
      try_operation g ext costFn efn editCost op frame s opbranch = Inr s' \<Longrightarrow> I s'"
    and skip: "\<And>s. I s \<Longrightarrow>
      fst (best s) - op_depth g (fst (snd (best s))) > fst (best s) * inflation \<Longrightarrow>
      I (s\<lparr>skipped := skipped s @ [i]\<rparr>)"
  shows "search_round g ext costFn efn inflation editCost i s = Inr s' \<Longrightarrow> I s \<Longrightarrow> I s'"
proof -
  assume r: "search_round g ext costFn efn inflation editCost i s = Inr s'" and i: "I s"
  obtain "value" op frame where b: "best s = (value, op, frame)" by (cases "best s")
  show "I s'"
  proof (cases "value - op_depth g op > value * inflation")
    case True
    with r b have "s' = s\<lparr>skipped := skipped s @ [i]\<rparr>" by (simp add: search_round_def)
    with skip[OF i] True b show ?thesis by simp
  next
    case False
    with r b have fo:
      "for_operations g ext costFn efn editCost op frame (getAllOperations g i frame) s = Inr s'"
      by (auto simp: search_round_def Let_def split: sum.splits)
    show ?thesis
    proof (rule for_operations_invariant[where I = I, OF _ fo i])
      fix t t' opbranch
      assume "I t" "try_operation g ext costFn efn editCost op frame t opbranch = Inr t'"
      then show "I t'" by (rule step)
    qed
  qed
qed

lemma for_rounds_invariant:
  assumes step: "\<And>op frame s s' opbranch. I s \<Longrightarrow>
      try_operation g ext costFn efn editCost op frame s opbranch = Inr s' \<Longrightarrow> I s'"
    and skip: "\<And>s i. I s \<Longrightarrow>
      fst (best s) - op_depth g (fst (snd (best s))) > fst (best s) * inflation \<Longrightarrow>
      I (s\<lparr>skipped := skipped s @ [i]\<rparr>)"
  shows "for_rounds g ext costFn efn inflation editCost is s = Inr s' \<Longrightarrow> I s \<Longrightarrow> I s'"
proof (induction "is" arbitrary: s)
  case Nil
  then show ?case by simp
next
  case (Cons i "is")
  from Cons.prems(1) obtain s1 where
    a: "search_round g ext costFn efn inflation editCost i s = Inr s1"
    and b: "for_rounds g ext costFn efn inflation editCost is s1 = Inr s'"
    by (auto split: sum.splits)
  have "I s1"
  proof (rule search_round_invariant[where I = I, OF _ _ a Cons.prems(2)])
    fix op frame t t' opbranch
    assume "I t" "try_operation g ext costFn efn editCost op frame t opbranch = Inr t'"
    then show "I t'" by (rule step)
  next
    fix t
    assume "I t" "fst (best t) - op_depth g (fst (snd (best t))) > fst (best t) * inflation"
    then show "I (t\<lparr>skipped := skipped t @ [i]\<rparr>)" by (rule skip)
  qed
  with Cons.IH[OF b] show ?case by blast
qed

lemma initial_simps:
  "best (initial g df) = (2, NOOP g, df)" "branch_hash (initial g df) = {hash_values g df}"
  "bad_op_cache (initial g df) = {}" "evaluated (initial g df) = []" "skipped (initial g df) = []"
  by (simp_all add: initial_def)

lemma try_operation_cases:
  assumes "try_operation g ext costFn efn editCost op frame s opbranch = Inr s'"
  obtains (cached) "s' = s"
  | (failed) "s' = s\<lparr>bad_op_cache := insert (op_name g opbranch) (bad_op_cache s)\<rparr>"
  | (scored) out n where "op_run g opbranch frame = Inr out" "\<not> pruningRules out"
      "combined_score ext costFn efn editCost out = Inr n"
      "s' = (if n < fst (best s) then s\<lparr>best := (n, op_mul g op opbranch, out)\<rparr> else s)
               \<lparr>evaluated := evaluated s @ [(out, n, fst (best s))]\<rparr>"
  using assms unfolding try_operation_def Let_def
  by (auto split: if_splits sum.splits)


lemma search_loop_total:
  assumes "total_qfn (qfn costFn)" and "total_qfn efn"
  shows "\<exists>s. search_loop g ext df costFn efn evaluations inflation editCost = Inr s"
  unfolding search_loop_def by (rule for_rounds_total[OF assms])

lemma search_loop_invariant:
  assumes step: "\<And>op frame s s' opbranch. I s \<Longrightarrow>
      try_operation g ext costFn efn editCost op frame s opbranch = Inr s' \<Longrightarrow> I s'"
    and skip: "\<And>s i. I s \<Longrightarrow>
      fst (best s) - op_depth g (fst (snd (best s))) > fst (best s) * inflation \<Longrightarrow>
      I (s\<lparr>skipped := skipped s @ [i]\<rparr>)"
    and init: "I (initial g df)"
    and run: "search_loop g ext df costFn efn evaluations inflation editCost = Inr s"
  shows "I s"
proof -
  from run have r:
    "for_rounds g ext costFn efn inflation editCost [0..<evaluations] (initial g df) = Inr s"
    by (simp add: search_loop_def)
  show ?thesis
  proof (rule for_rounds_invariant[where I = I, OF _ _ r init])
    fix op frame t t' opbranch
    assume "I t" "try_operation g ext costFn efn editCost op frame t opbranch = Inr t'"
    then show "I t'" by (rule step)
  next
    fix t i
    assume "I t" "fst (best t) - op_depth g (fst (snd (best t))) > fst (best t) * inflation"
    then show "I (t\<lparr>skipped := skipped t @ [i]\<rparr>)" by (rule skip)
  qed
qed



lemma no_skip:
  assumes inf: "1 \<le> inflation" and depth: "\<forall>op. 0 \<le> op_depth g op"
    and run: "search_loop g ext df costFn efn evaluations inflation editCost = Inr s"
  shows "(\<forall>(out, n, b)\<in>set (evaluated s). 0 \<le> n) \<longrightarrow> 0 \<le> fst (best s) \<and> skipped s = []"
proof (rule search_loop_invariant[where
      I = "\<lambda>s. (\<forall>(out, n, b)\<in>set (evaluated s). 0 \<le> n) \<longrightarrow> 0 \<le> fst (best s) \<and> skipped s = []",
      OF _ _ _ run])
  fix op frame and t t' :: "'a search" and opbranch
  assume i: "(\<forall>(out, n, b)\<in>set (evaluated t). 0 \<le> n) \<longrightarrow> 0 \<le> fst (best t) \<and> skipped t = []"
    and t: "try_operation g ext costFn efn editCost op frame t opbranch = Inr t'"
  from t show "(\<forall>(out, n, b)\<in>set (evaluated t'). 0 \<le> n) \<longrightarrow> 0 \<le> fst (best t') \<and> skipped t' = []"
    by (cases rule: try_operation_cases) (use i in \<open>auto split: if_splits\<close>)
next
  fix t :: "'a search" and i :: nat
  assume i: "(\<forall>(out, n, b)\<in>set (evaluated t). 0 \<le> n) \<longrightarrow> 0 \<le> fst (best t) \<and> skipped t = []"
    and test: "fst (best t) - op_depth g (fst (snd (best t))) > fst (best t) * inflation"
  show "(\<forall>(out, n, b)\<in>set (evaluated (t\<lparr>skipped := skipped t @ [i]\<rparr>)). 0 \<le> n)
      \<longrightarrow> 0 \<le> fst (best (t\<lparr>skipped := skipped t @ [i]\<rparr>))
          \<and> skipped (t\<lparr>skipped := skipped t @ [i]\<rparr>) = []"
  proof (intro impI)
    assume "\<forall>(out, n, b)\<in>set (evaluated (t\<lparr>skipped := skipped t @ [i]\<rparr>)). 0 \<le> n"
    with i have v: "0 \<le> fst (best t)" by simp
    from depth have d: "0 \<le> op_depth g (fst (snd (best t)))" by blast
    from v inf have "fst (best t) * 1 \<le> fst (best t) * inflation"
      by (rule mult_left_mono[rotated])
    with d test show "0 \<le> fst (best (t\<lparr>skipped := skipped t @ [i]\<rparr>))
        \<and> skipped (t\<lparr>skipped := skipped t @ [i]\<rparr>) = []"
      by simp
  qed
next
  show "(\<forall>(out, n, b)\<in>set (evaluated (initial g df)). 0 \<le> n)
      \<longrightarrow> 0 \<le> fst (best (initial g df)) \<and> skipped (initial g df) = []"
    by (simp add: initial_simps)
qed

lemma search_loop_no_improvement:
  assumes "search_loop g ext df costFn efn evaluations inflation editCost = Inr s"
  shows "(\<forall>(out, n, b)\<in>set (evaluated s). \<not> n < b) \<longrightarrow> best s = (2, NOOP g, df)"
proof (rule search_loop_invariant[where
      I = "\<lambda>s. (\<forall>(out, n, b)\<in>set (evaluated s). \<not> n < b) \<longrightarrow> best s = (2, NOOP g, df)",
      OF _ _ _ assms])
  fix op frame and t t' :: "'a search" and opbranch
  assume i: "(\<forall>(out, n, b)\<in>set (evaluated t). \<not> n < b) \<longrightarrow> best t = (2, NOOP g, df)"
    and t: "try_operation g ext costFn efn editCost op frame t opbranch = Inr t'"
  from t show "(\<forall>(out, n, b)\<in>set (evaluated t'). \<not> n < b) \<longrightarrow> best t' = (2, NOOP g, df)"
    by (cases rule: try_operation_cases) (use i in \<open>auto split: if_splits\<close>)
next
  fix t :: "'a search" and i :: nat
  assume "(\<forall>(out, n, b)\<in>set (evaluated t). \<not> n < b) \<longrightarrow> best t = (2, NOOP g, df)"
  then show "(\<forall>(out, n, b)\<in>set (evaluated (t\<lparr>skipped := skipped t @ [i]\<rparr>)). \<not> n < b)
      \<longrightarrow> best (t\<lparr>skipped := skipped t @ [i]\<rparr>) = (2, NOOP g, df)" by simp
next
  show "(\<forall>(out, n, b)\<in>set (evaluated (initial g df)). \<not> n < b)
      \<longrightarrow> best (initial g df) = (2, NOOP g, df)"
    by (simp add: initial_simps)
qed

lemma branch_hash_constant:
  assumes "search_loop g ext df costFn efn evaluations inflation editCost = Inr s"
  shows "branch_hash s = {hash_values g df}"
proof (rule search_loop_invariant[where I = "\<lambda>s. branch_hash s = {hash_values g df}",
      OF _ _ _ assms])
  fix op frame and t t' :: "'a search" and opbranch
  assume i: "branch_hash t = {hash_values g df}"
    and t: "try_operation g ext costFn efn editCost op frame t opbranch = Inr t'"
  from t show "branch_hash t' = {hash_values g df}"
    by (cases rule: try_operation_cases) (use i in \<open>auto split: if_splits\<close>)
next
  fix t :: "'a search" and i :: nat
  assume "branch_hash t = {hash_values g df}"
  then show "branch_hash (t\<lparr>skipped := skipped t @ [i]\<rparr>) = {hash_values g df}" by simp
next
  show "branch_hash (initial g df) = {hash_values g df}" by (simp add: initial_simps)
qed

subsection \<open>Sample runs of the loop\<close>

lemma sample_rule_total: "total_qfn (qfn sample_rule)"
  by (simp add: sample_rule_def DictValue_def Predicate_init_def Constraint_init_def
      Constraint_qfn_total)

lemma sample_depth_nonneg: "0 \<le> sample_depth op"
  by (induction op) simp_all

lemma np_sum_sample: "np_sum sample_ext = sequential_sum"
  by (simp add: sample_ext_def)

lemma sequential_sum_11: "sequential_sum [1, 1] = 2"
  by (simp add: sequential_sum_def float64_1 float64_2)

lemma sequential_sum_00: "sequential_sum [0, 0] = 0"
  by (simp add: sequential_sum_def float64_0)

lemma rule_df: "qfn sample_rule sample_df = Inr [1, 1]"
  by (simp add: sample_rule_def DictValue_def Predicate_init_def Constraint_init_def
      Constraint_qfn_def Predicate__qfn_def shape_def sample_df_def getitem_def iloc_def upt_2)

lemma rule_blank: "qfn sample_rule sample_blank = Inr [1, 1]"
  by (simp add: sample_rule_def DictValue_def Predicate_init_def Constraint_init_def
      Constraint_qfn_def Predicate__qfn_def shape_def sample_blank_def getitem_def iloc_def upt_2)

lemma fidelity_df: "qfn (CellEdit sample_ext sample_df Map.empty) sample_df = Inr [0, 0]"
  by (simp add: CellEdit_def Constraint_qfn_def CellEdit__qfn_def shape_def sample_df_def
      iloc_def CellEdit_cell_def upt_2)

lemma fidelity_blank: "qfn (CellEdit sample_ext sample_df Map.empty) sample_blank = Inr [1, 1]"
  by (simp add: CellEdit_def Constraint_qfn_def CellEdit__qfn_def shape_def sample_df_def
      sample_blank_def iloc_def CellEdit_cell_def upt_2 float64_1)

lemma score_df:
  "combined_score sample_ext sample_rule (qfn (CellEdit sample_ext sample_df Map.empty)) 1 sample_df
     = Inr 1"
proof -
  have "fst (shape sample_df) = 2" by (simp add: shape_def sample_df_def)
  then show ?thesis
    by (simp add: combined_score_def rule_df fidelity_df np_sum_sample sequential_sum_11
        sequential_sum_00 float64_0 float64_1 float64_2)
qed

lemma score_blank:
  "combined_score sample_ext sample_rule (qfn (CellEdit sample_ext sample_df Map.empty)) 1
     sample_blank = Inr 2"
proof -
  have "fst (shape sample_blank) = 2" by (simp add: shape_def sample_blank_def)
  then show ?thesis
    by (simp add: combined_score_def rule_blank fidelity_blank np_sum_sample sequential_sum_11
        float64_2 float64_4)
qed

lemma blank_df: "sample_df\<lparr>rows := map (map (\<lambda>c. CStr [])) (rows sample_df)\<rparr> = sample_blank"
  by (simp add: sample_df_def sample_blank_def)

lemma not_pruned: "\<not> pruningRules sample_df" "\<not> pruningRules sample_blank"
  by (simp_all add: pruningRules_def shape_def sample_df_def sample_blank_def)

lemma hash_df: "hash_values (sample_env ops) sample_df = 2"
  by (simp add: sample_env_def sample_df_def)

lemmas sample_eval = search_loop_def search_round_def try_operation_def initial_def Let_def
  sample_env_def score_df score_blank rule_df rule_blank blank_df not_pruned upt_2





lemma run_keep_blank:
  "search_loop (sample_env [Keep, Blank]) sample_ext sample_df sample_rule
       (qfn (CellEdit sample_ext sample_df Map.empty)) 2 5 1
     = Inr \<lparr> best = (1, Seq Noop Keep, sample_df),
             branch_hash = {hash_values (sample_env [Keep, Blank]) sample_df}, bad_op_cache = {},
             evaluated = [(sample_df, 1, 2), (sample_blank, 2, 1), (sample_df, 1, 1),
                          (sample_blank, 2, 1)],
             skipped = [] \<rparr>"
  by (simp add: sample_eval)

subsection \<open>What the loop does\<close>

text \<open>
  C10. In the loop of \<^verbatim>\<open>treeSearch\<close>, for a rule and a fidelity function that return on
  every table, with an inflation factor of at least 1 and operations of non-negative
  depth: in every run whose scores are all non-negative, no round ends at the
  \<^verbatim>\<open>continue\<close> of the inflation test. The test compares \<^verbatim>\<open>best[0] - best[1].depth\<close> with
  \<^verbatim>\<open>best[0] * inflation\<close>, both read from the current best.
\<close>

theorem search_never_skips:
  assumes "total_qfn (qfn costFn)" and "total_qfn efn"
    and "1 \<le> inflation" and "\<forall>op. 0 \<le> op_depth g op"
  shows "\<exists>s. search_loop g ext df costFn efn evaluations inflation editCost = Inr s
     \<and> ((\<forall>(out, n, b)\<in>set (evaluated s). 0 \<le> n) \<longrightarrow> skipped s = [])"
proof -
  from search_loop_total[OF assms(1,2)] obtain s where
    s: "search_loop g ext df costFn efn evaluations inflation editCost = Inr s" by blast
  from no_skip[OF assms(3,4) s] s show ?thesis by blast
qed

theorem search_never_skips_witness:
  "total_qfn (qfn sample_rule) \<and> total_qfn (qfn (CellEdit sample_ext sample_df Map.empty))
   \<and> (1::real) \<le> 5 \<and> (\<forall>op. 0 \<le> op_depth (sample_env [Keep, Blank]) op)
   \<and> (case search_loop (sample_env [Keep, Blank]) sample_ext sample_df sample_rule
             (qfn (CellEdit sample_ext sample_df Map.empty)) 2 5 1 of
         Inl e \<Rightarrow> False
       | Inr s \<Rightarrow> map (fst \<circ> snd) (evaluated s) = [1, 2, 1, 2] \<and> skipped s = [])"
proof -
  have d: "\<forall>op. 0 \<le> op_depth (sample_env [Keep, Blank]) op"
    by (simp add: sample_env_def sample_depth_nonneg)
  have i: "(1::real) \<le> 5" by simp
  from search_never_skips[OF sample_rule_total CellEdit_total[of sample_ext sample_df Map.empty]
      i d, where ext = sample_ext and df = sample_df and evaluations = 2 and editCost = 1]
  obtain s where
    s: "search_loop (sample_env [Keep, Blank]) sample_ext sample_df sample_rule
          (qfn (CellEdit sample_ext sample_df Map.empty)) 2 5 1 = Inr s"
    and f: "(\<forall>(out, n, b)\<in>set (evaluated s). 0 \<le> n) \<longrightarrow> skipped s = []"
    by blast
  from s run_keep_blank
  have e: "evaluated s = [(sample_df, 1, 2), (sample_blank, 2, 1), (sample_df, 1, 1),
      (sample_blank, 2, 1)]" by auto
  then have "\<forall>(out, n, b)\<in>set (evaluated s). 0 \<le> n" by simp
  with f have "skipped s = []" by blast
  with s e d sample_rule_total CellEdit_total show ?thesis by simp
qed





subsection \<open>The first statement of the search\<close>

text \<open>
  C2. The fidelity function is never built: the first statement of \<^verbatim>\<open>treeSearch\<close> passes
  three positional arguments to the constructor of \<^verbatim>\<open>CellEdit\<close>, which takes two, and
  raises \<^verbatim>\<open>TypeError\<close>. No candidate is scored.
\<close>

theorem treeSearch_efn_raises: "treeSearch_efn ext df sim word2vec = Inl TypeError"
  by (simp add: treeSearch_efn_def CellEdit_call_def)

text \<open>
  C7. For every input, \<^verbatim>\<open>treeSearch\<close> ends in the \<^verbatim>\<open>TypeError\<close> of its first statement
  and returns neither a table nor an operation.
\<close>

theorem treeSearch_raises:
  "treeSearch g ext df costFn evaluations inflation editCost sim word2vec = Inl TypeError"
  by (simp add: treeSearch_def treeSearch_run_def treeSearch_efn_def CellEdit_call_def)

section \<open>Composition: what the program does on a number and on two dependencies\<close>

text \<open>
  On two constraints that both carry \<open>hint\<close> and \<open>hintParams\<close>, the \<^verbatim>\<open>except\<close> body of
  \<^verbatim>\<open>__mul__\<close> builds the elementwise maximum.
\<close>

lemma Constraint_mul_max:
  assumes "hint a = Some ha" and "hint b = Some hb"
    and "hintParams a = Some pa" and "hintParams b = Some pb"
  shows "\<exists>c. Constraint_mul a (Con b) = Inr c
           \<and> hint c = Some (ha \<union> hb)
           \<and> (\<forall>df u v. qfn a df = Inr u \<and> qfn b df = Inr v \<and> length u = length v
                 \<longrightarrow> qfn c df = Inr (map2 max u v))"
  using assms
  by (auto simp: Constraint_mul_def combine_def attr_hint_def attr_hintParams_def operand_hint_def
      operand_hintParams_def operand_float_def operand_qfn_def max_qfn_def np_binop_def)

text \<open>
  C6. Multiplying a constraint by a number: the \<^verbatim>\<open>try\<close> body of \<^verbatim>\<open>__mul__\<close> converts the
  number and then reads \<^verbatim>\<open>other.hint\<close> on it, which raises; the \<^verbatim>\<open>except\<close> body reads
  \<^verbatim>\<open>other.hint\<close> again, and that error reaches the caller. For every constraint and every
  number the product is an \<^verbatim>\<open>AttributeError\<close>, not a scaled constraint.
\<close>

theorem Constraint_mul_scalar_raises: "Constraint_mul a (Num w) = Inl AttributeError"
  by (simp add: Constraint_mul_def combine_def operand_float_def operand_hint_def
      attr_hint_def split: option.splits)

text \<open>
  C3. \<^verbatim>\<open>OneToOne(source, target)\<close> multiplies two \<^verbatim>\<open>FD\<close> objects. \<^verbatim>\<open>FD.__init__\<close> never
  sets \<open>hintParams\<close>, so \<^verbatim>\<open>self.hintParams.copy()\<close> in the \<^verbatim>\<open>except\<close> body of \<^verbatim>\<open>__mul__\<close>
  raises: for all column lists the call ends in an \<^verbatim>\<open>AttributeError\<close> and no constraint
  is built.
\<close>

theorem OneToOne_raises: "OneToOne source target = Inl AttributeError"
  by (simp add: OneToOne_def Constraint_mul_def combine_def operand_float_def operand_hint_def
      operand_hintParams_def attr_hint_def attr_hintParams_def FD_def)

end
